theory Spec2Isabelle
  imports Complex_Main "HOL-Library.Word"
begin

unbundle bit_operations_syntax

section \<open>Conventions of the embedding\<close>

text \<open>
  The analysis core of the repository lives in two files: \<^verbatim>\<open>src/music.js\<close> (pitch, note,
  chroma, key, chords) and the audio pipeline (\<^verbatim>\<open>decodeWav\<close>, \<^verbatim>\<open>mergeChannels\<close>,
  \<^verbatim>\<open>maybeResample\<close>). Each function is translated to a HOL function of the same name.

  \<^item> A JavaScript number is modelled as a \<^typ>\<open>real\<close> (or as \<^typ>\<open>int\<close>/\<^typ>\<open>nat\<close> where
    the source only ever holds an integer there). Rounding of sample values (IEEE
    doubles, \<^verbatim>\<open>Float32Array\<close> stores) is not modelled; in \<^verbatim>\<open>maybeResample\<close>, where a
    length and an index are cut out of a double, the rounding to double precision is
    modelled by \<open>fl64\<close>. Where the source would produce
    \<^verbatim>\<open>NaN\<close>, \<^verbatim>\<open>Infinity\<close> or \<^verbatim>\<open>undefined\<close>, the model has an explicit branch
    for it instead of HOL's value for a division by zero or an out-of-range read.
  \<^item> \<^verbatim>\<open>null\<close>/\<^verbatim>\<open>undefined\<close> are \<^term>\<open>None\<close>.
  \<^item> A thrown exception is the \<^term>\<open>Inl\<close> side of a sum.
  \<^item> A \<^verbatim>\<open>for\<close> loop over a counter is a \<^term>\<open>fold\<close> over the list of its counter
    values, or a recursive function where the step is not constant.
\<close>

section \<open>music.js\<close>

subsection \<open>Tables\<close>

definition NOTE_NAMES :: "string list" where
  "NOTE_NAMES = [''C'', ''C#'', ''D'', ''D#'', ''E'', ''F'', ''F#'', ''G'', ''G#'', ''A'', ''A#'', ''B'']"

definition MAJOR_TEMPLATE :: "real list" where
  "MAJOR_TEMPLATE = [1, 0, 1, 0, 1, 1, 0, 1, 0, 1, 0, 1]"

definition MINOR_TEMPLATE :: "real list" where
  "MINOR_TEMPLATE = [1, 0, 1, 1, 0, 1, 0, 1, 1, 0, 1, 0]"

subsection \<open>JavaScript primitives used by the source\<close>

text \<open>The remainder operator \<^verbatim>\<open>a % b\<close> on integers: the result has the sign of the
  dividend (truncated division). Only used with a non-zero divisor.\<close>

definition js_rem :: "int \<Rightarrow> int \<Rightarrow> int" where
  "js_rem a b = sgn a * (\<bar>a\<bar> mod \<bar>b\<bar>)"

text \<open>\<^verbatim>\<open>Array.prototype.indexOf\<close>: the first position of the element, or \<open>-1\<close>.\<close>

fun indexOf :: "'a list \<Rightarrow> 'a \<Rightarrow> int" where
  "indexOf [] y = -1"
| "indexOf (x # xs) y = (if x = y then 0 else (let r = indexOf xs y in if r < 0 then -1 else r + 1))"

text \<open>\<^verbatim>\<open>String.prototype.split(sep)\<close> for a one-character separator: every occurrence
  separates, empty fields are kept, and the empty string gives one empty field.\<close>

fun js_split :: "char \<Rightarrow> string \<Rightarrow> string list" where
  "js_split sep [] = [[]]"
| "js_split sep (c # cs) =
     (if c = sep then [] # js_split sep cs
      else (case js_split sep cs of [] \<Rightarrow> [[c]] | w # ws \<Rightarrow> (c # w) # ws))"

text \<open>The decimal text of an integer, as a template literal prints it.\<close>

definition digit_char :: "nat \<Rightarrow> char" where
  "digit_char d = ''0123456789'' ! d"

fun string_of_nat :: "nat \<Rightarrow> string" where
  "string_of_nat n =
     (if 10 \<le> n then string_of_nat (n div 10) @ [digit_char (n mod 10)]
      else [digit_char n])"

definition string_of_int :: "int \<Rightarrow> string" where
  "string_of_int i = (if i < 0 then CHR ''-'' # string_of_nat (nat (- i)) else string_of_nat (nat i))"

subsection \<open>hzToNote\<close>

record note_annotation =
  noteName :: "string option"
  centsOff :: "real option"
  targetFreq :: "real option"

text \<open>The index expression of line 76, \<^verbatim>\<open>((nearestMidi % 12) + 12) % 12\<close>.\<close>

definition noteIndex :: "int \<Rightarrow> int" where
  "noteIndex nearestMidi = js_rem (js_rem nearestMidi 12 + 12) 12"

text \<open>An array read: \<^verbatim>\<open>undefined\<close> outside the bounds.\<close>

definition elemAt :: "'a list \<Rightarrow> int \<Rightarrow> 'a option" where
  "elemAt xs i = (if 0 \<le> i \<and> i < int (length xs) then Some (xs ! nat i) else None)"

text \<open>A template literal prints \<^verbatim>\<open>undefined\<close> as that word.\<close>

definition show_name :: "string option \<Rightarrow> string" where
  "show_name s = (case s of None \<Rightarrow> ''undefined'' | Some n \<Rightarrow> n)"

definition hzToNote :: "real option \<Rightarrow> note_annotation" where
  "hzToNote freq =
     (case freq of
        None \<Rightarrow> \<lparr>noteName = None, centsOff = None, targetFreq = None\<rparr>
      | Some f \<Rightarrow>
          if f = 0 \<or> f \<le> 0 then \<lparr>noteName = None, centsOff = None, targetFreq = None\<rparr>
          else
            let midiNum = 69 + 12 * log 2 (f / 440);
                nearestMidi = round midiNum;
                cents = (midiNum - of_int nearestMidi) * 100;
                name = show_name (elemAt NOTE_NAMES (noteIndex nearestMidi))
                         @ string_of_int (\<lfloor>(of_int nearestMidi :: real) / 12\<rfloor> - 1);
                target = 440 * (2 powr ((of_int nearestMidi - 69) / 12))
            in \<lparr>noteName = Some name, centsOff = Some cents, targetFreq = Some target\<rparr>)"

subsection \<open>suggestChords\<close>

text \<open>The body of both \<^verbatim>\<open>intervals.map(...)\<close> calls (lines 173 and 178): the name at
  \<^verbatim>\<open>(baseIdx + interval) % 12\<close> followed by the suffix at the same position.\<close>

definition chordNames :: "int \<Rightarrow> int list \<Rightarrow> string list \<Rightarrow> string list" where
  "chordNames baseIdx intervals suffixes =
     map (\<lambda>(interval, index).
            show_name (elemAt NOTE_NAMES (js_rem (baseIdx + interval) 12))
              @ show_name (elemAt suffixes (int index)))
         (zip intervals [0..<length intervals])"

definition suggestChords :: "string option \<Rightarrow> string list" where
  "suggestChords key =
     (case key of
        None \<Rightarrow> []
      | Some k \<Rightarrow>
          if k = [] then []
          else
            (case js_split CHR '' '' k of
               [] \<Rightarrow> []
             | baseNote # rest \<Rightarrow>
                 let scaleType = (case rest of [] \<Rightarrow> None | m # _ \<Rightarrow> Some m);
                     baseIdx = indexOf NOTE_NAMES baseNote
                 in if baseIdx < 0 then []
                    else if scaleType = Some ''Major'' then
                      chordNames baseIdx [0, 2, 4, 5, 7, 9, 11] ['''', ''m'', ''m'', '''', '''', ''m'', ''dim'']
                    else
                      chordNames baseIdx [0, 2, 3, 5, 7, 8, 10] [''m'', ''dim'', '''', ''m'', ''m'', '''', '''']))"

subsection \<open>normalize, rms, detectPitch\<close>

text \<open>\<^verbatim>\<open>normalize\<close> (lines 5-17): the largest absolute sample, then every sample divided
  by it; the input itself when that maximum is not positive.\<close>

definition maxAbs :: "real list \<Rightarrow> real" where
  "maxAbs samples = fold (\<lambda>s mx. if \<bar>s\<bar> > mx then \<bar>s\<bar> else mx) samples 0"

definition normalize_samples :: "real list \<Rightarrow> real list" where
  "normalize_samples samples =
     (let mx = maxAbs samples
      in if mx \<le> 0 then samples else map (\<lambda>s. s / mx) samples)"

definition rms :: "real list \<Rightarrow> real" where
  "rms samples =
     (if samples = [] then 0
      else sqrt (fold (\<lambda>s sum. sum + s * s) samples 0 / real (length samples)))"

text \<open>The inner loop of \<^verbatim>\<open>detectPitch\<close> (lines 42-52) for one lag: the three running sums
  over \<open>i < y.length - lag\<close>. The lag is never negative there, so both reads are inside
  the array.\<close>

definition lagSums :: "real list \<Rightarrow> int \<Rightarrow> real \<times> real \<times> real" where
  "lagSums y lag =
     fold (\<lambda>i (corr, energy1, energy2).
             let a = y ! i; b = y ! (i + nat lag)
             in (corr + a * b, energy1 + a * a, energy2 + b * b))
          [0..<nat (int (length y) - lag)] (0, 0, 0)"

text \<open>One pass of the outer loop (lines 41-62) on the state \<open>(bestLag, bestCorr)\<close>.\<close>

definition lagStep :: "real list \<Rightarrow> int \<Rightarrow> int \<times> real \<Rightarrow> int \<times> real" where
  "lagStep y lag best =
     (case lagSums y lag of
        (corr, energy1, energy2) \<Rightarrow>
          let denom = sqrt (energy1 * energy2)
          in if denom = 0 then best
             else let score = corr / denom
                  in if score > snd best then (lag, score) else best)"

definition detectPitch :: "real list \<Rightarrow> real \<Rightarrow> real option" where
  "detectPitch samples sampleRate =
     (if samples = [] \<or> sampleRate \<le> 0 then None
      else
        let y = normalize_samples samples
        in if rms y < 0.01 then None
           else
             let minFreq = 65.41;
                 maxFreq = 2093.0;
                 minLag = \<lfloor>sampleRate / maxFreq\<rfloor>;
                 maxLag = \<lfloor>sampleRate / minFreq\<rfloor>;
                 best = fold (lagStep y) [minLag..maxLag] (- 1, 0)
             in if fst best \<le> 0 \<or> snd best < 0.35 then None
                else Some (sampleRate / of_int (fst best)))"

subsection \<open>pitchClassEnergy, estimateChroma, detectKey\<close>

definition pitchClassEnergy :: "real list \<Rightarrow> real \<Rightarrow> real \<Rightarrow> real" where
  "pitchClassEnergy samples sampleRate freq =
     (let omega = (2 * pi * freq) / sampleRate;
          coeff = 2 * cos omega
      in case fold (\<lambda>x (sPrev, sPrev2). (x + coeff * sPrev - sPrev2, sPrev)) samples (0, 0) of
           (sPrev, sPrev2) \<Rightarrow> sPrev2 * sPrev2 + sPrev * sPrev - coeff * sPrev * sPrev2)"

text \<open>Lines 107-113: the energy of one pitch class in one frame, summed over the octaves
  2 to 6 whose tuned frequency is inside the guard band.\<close>

definition octaveAcc :: "real list \<Rightarrow> real \<Rightarrow> nat \<Rightarrow> real" where
  "octaveAcc frame sampleRate pitchClass =
     fold (\<lambda>octave acc.
             let midi = 12 * (octave + 1) + pitchClass;
                 freq = 440 * (2 powr ((real midi - 69) / 12))
             in if freq < 40 \<or> freq > sampleRate / 2 - 100 then acc
                else acc + pitchClassEnergy frame sampleRate freq)
          [2..<7] 0"

text \<open>Lines 103-116: the loop over the frame starts, with step
  \<open>hop = max(1024, floor(frameSize / 2))\<close>; \<^verbatim>\<open>subarray(start, start + frameSize)\<close> is
  \<^term>\<open>take frameSize (drop start samples)\<close>.\<close>

function chromaFrames :: "real list \<Rightarrow> real \<Rightarrow> nat \<Rightarrow> nat \<Rightarrow> real list \<Rightarrow> real list" where
  "chromaFrames samples sampleRate frameSize start chroma =
     (if start + frameSize \<le> length samples then
        chromaFrames samples sampleRate frameSize (start + max 1024 (frameSize div 2))
          (map (\<lambda>pitchClass.
                  chroma ! pitchClass
                    + octaveAcc (take frameSize (drop start samples)) sampleRate pitchClass)
               [0..<12])
      else chroma)"
  by pat_completeness auto
termination
  by (relation "measure (\<lambda>(samples, sampleRate, frameSize, start, chroma). Suc (length samples) - start)")
     auto

declare chromaFrames.simps [simp del]

text \<open>\<^verbatim>\<open>Math.hypot\<close> of the elements of an array.\<close>

definition hypot :: "real list \<Rightarrow> real" where
  "hypot vs = sqrt (\<Sum>v\<leftarrow>vs. v * v)"

definition estimateChroma :: "real list \<Rightarrow> real \<Rightarrow> real list" where
  "estimateChroma samples sampleRate =
     (let chroma = replicate 12 0;
          frameSize = min 4096 (length samples)
      in if frameSize < 1024 then chroma
         else
           let summed = chromaFrames samples sampleRate frameSize 0 chroma;
               norm = hypot summed
           in if norm > 0 then map (\<lambda>c. c / norm) summed else summed)"

record key_estimate =
  keyName :: "string option"
  confidence :: real

text \<open>Lines 141-151: the score of root \<open>i\<close> with one template.\<close>

definition keyScore :: "real list \<Rightarrow> nat \<Rightarrow> real list \<Rightarrow> real" where
  "keyScore chroma i template =
     (let rolled = map (\<lambda>j. template ! nat (js_rem (int j - int i + 12) 12)) [0..<12];
          norm = hypot rolled;
          normalized = map (\<lambda>v. v / norm) rolled
      in fold (\<lambda>j score. score + chroma ! j * normalized ! j) [0..<12] 0)"

text \<open>Lines 153-156 on the state \<open>(bestScore, bestKey)\<close>; \<^term>\<open>None\<close> as a score is
  the initial \<^verbatim>\<open>-Infinity\<close>, below every number.\<close>

definition keyStep :: "real list \<Rightarrow> nat \<Rightarrow> real list \<times> string \<Rightarrow> real option \<times> string option
    \<Rightarrow> real option \<times> string option" where
  "keyStep chroma i cand best =
     (case cand of
        (template, suffix) \<Rightarrow>
          let score = keyScore chroma i template
          in if (case fst best of None \<Rightarrow> True | Some b \<Rightarrow> score > b)
             then (Some score, Some (show_name (elemAt NOTE_NAMES (int i)) @ '' '' @ suffix))
             else best)"

text \<open>Line 140: both templates for one root, major first.\<close>

definition keyRoot :: "real list \<Rightarrow> nat \<Rightarrow> real option \<times> string option
    \<Rightarrow> real option \<times> string option" where
  "keyRoot chroma i best =
     fold (keyStep chroma i) [(MAJOR_TEMPLATE, ''Major''), (MINOR_TEMPLATE, ''Minor'')] best"

text \<open>Line 139: the roots in ascending order, from \<open>bestScore = -Infinity\<close> and
  \<open>bestKey = null\<close>.\<close>

definition keyLoop :: "real list \<Rightarrow> real option \<times> string option" where
  "keyLoop chroma = fold (keyRoot chroma) [0..<length NOTE_NAMES] (None, None)"

definition detectKey :: "real list \<Rightarrow> real \<Rightarrow> key_estimate" where
  "detectKey samples sampleRate =
     (if samples = [] \<or> sampleRate \<le> 0 then \<lparr>keyName = None, confidence = 0\<rparr>
      else
        let durationLimited = take (nat \<lfloor>min (real (length samples)) (sampleRate * 30)\<rfloor>) samples;
            chroma = estimateChroma durationLimited sampleRate
        in case keyLoop chroma of
             (bestScore, bestKey) \<Rightarrow>
               \<lparr>keyName = bestKey,
                confidence = (case bestScore of None \<Rightarrow> 0 | Some b \<Rightarrow> max 0 (min 1 b))\<rparr>)"

section \<open>The audio pipeline\<close>

subsection \<open>Outcomes and bytes\<close>

text \<open>What a call of the decoder can end in besides a result. \<open>InvalidWavHeader\<close>,
  \<open>DataChunkNotFound\<close> and \<open>UnsupportedBitsPerSample\<close> are the three \<^verbatim>\<open>throw new Error\<close>
  of \<^verbatim>\<open>decodeWav\<close>; \<open>RangeError\<close> is what a \<^verbatim>\<open>DataView\<close> read outside the buffer
  and \<^verbatim>\<open>new Float32Array(Infinity)\<close> throw; \<open>NeverReturns\<close> is not an exception: it
  marks the inputs on which the frame loop has no exit. \<open>NaNSamples\<close> marks a returned
  buffer that holds \<^verbatim>\<open>NaN\<close>, which has no counterpart in \<^typ>\<open>real\<close>.\<close>

datatype js_error =
    InvalidWavHeader
  | DataChunkNotFound
  | UnsupportedBitsPerSample nat
  | RangeError
  | NeverReturns
  | NaNSamples

type_synonym byte = "8 word"

text \<open>A decoded sample: \<^term>\<open>None\<close> is a non-finite float (\<^verbatim>\<open>NaN\<close> or an infinity).\<close>

type_synonym sample = "real option"

text \<open>The bytes of an ASCII tag; \<^verbatim>\<open>String.fromCharCode\<close> of four bytes equals a tag
  exactly when the bytes are the tag's character codes.\<close>

definition bytes_of :: "string \<Rightarrow> byte list" where
  "bytes_of s = map of_char s"

text \<open>The unsigned little-endian value of a run of bytes.\<close>

definition le_value :: "byte list \<Rightarrow> nat" where
  "le_value bs = foldr (\<lambda>b v. unat b + 256 * v) bs 0"

text \<open>\<^verbatim>\<open>DataView.getUint8/16/32(byteOffset, true)\<close> with \<open>n\<close> = 1, 2, 4 bytes.\<close>

definition getUint :: "nat \<Rightarrow> byte list \<Rightarrow> nat \<Rightarrow> js_error + nat" where
  "getUint n buf byteOffset =
     (if byteOffset + n \<le> length buf then Inr (le_value (take n (drop byteOffset buf)))
      else Inl RangeError)"

text \<open>\<^verbatim>\<open>DataView.getInt16/32(byteOffset, true)\<close>: two's complement of the same bytes.\<close>

definition getInt :: "nat \<Rightarrow> byte list \<Rightarrow> nat \<Rightarrow> js_error + int" where
  "getInt n buf byteOffset =
     (case getUint n buf byteOffset of
        Inl e \<Rightarrow> Inl e
      | Inr u \<Rightarrow> Inr (if 2 ^ (8 * n - 1) \<le> u then int u - 2 ^ (8 * n) else int u))"

text \<open>The value of an IEEE-754 binary32 bit pattern: sign bit, 8 exponent bits, 23
  fraction bits; exponent 255 is an infinity or \<^verbatim>\<open>NaN\<close>, exponent 0 a subnormal.\<close>

definition float32_value :: "nat \<Rightarrow> sample" where
  "float32_value u =
     (let sign = (if u div 2 ^ 31 = 1 then - 1 else 1 :: real);
          e = (u div 2 ^ 23) mod 256;
          m = u mod 2 ^ 23
      in if e = 255 then None
         else if e = 0 then Some (sign * real m / 2 ^ 149)
         else Some (sign * real (2 ^ 23 + m) * 2 ^ e / 2 ^ 150))"

definition getFloat32 :: "byte list \<Rightarrow> nat \<Rightarrow> js_error + sample" where
  "getFloat32 buf byteOffset =
     (case getUint 4 buf byteOffset of Inl e \<Rightarrow> Inl e | Inr u \<Rightarrow> Inr (float32_value u))"

subsection \<open>mergeChannels\<close>

definition addSample :: "sample \<Rightarrow> sample \<Rightarrow> sample" where
  "addSample a b = (case a of None \<Rightarrow> None | Some x \<Rightarrow> (case b of None \<Rightarrow> None | Some y \<Rightarrow> Some (x + y)))"

text \<open>Lines 80-101. \<^verbatim>\<open>channelData[c][i] ?? 0\<close> replaces a read past the end of a shorter
  channel by 0.\<close>

definition mergeChannels :: "sample list list \<Rightarrow> sample list" where
  "mergeChannels channelData =
     (case channelData of
        [] \<Rightarrow> []
      | [only] \<Rightarrow> only
      | first # _ \<Rightarrow>
          map (\<lambda>i. map_option (\<lambda>sum. sum / real (length channelData))
                     (fold (\<lambda>c sum. addSample sum
                                      (case elemAt (channelData ! c) (int i) of
                                         None \<Rightarrow> Some 0 | Some v \<Rightarrow> v))
                           [0..<length channelData] (Some 0)))
              [0..<length first])"

subsection \<open>decodeWav\<close>

record wav_fmt =
  audioFormat :: nat
  numChannels :: nat
  sampleRate_fmt :: nat
  bitsPerSample :: nat

text \<open>Lines 112-115: the values in force when no format chunk has been seen. The field
  \<open>sampleRate_fmt\<close> is the source's \<^verbatim>\<open>sampleRate\<close>.\<close>

definition default_fmt :: wav_fmt where
  "default_fmt = \<lparr>audioFormat = 1, numChannels = 1, sampleRate_fmt = 44100, bitsPerSample = 16\<rparr>"

text \<open>Lines 129-132: the four reads of a format chunk whose header is at \<open>offset\<close>.\<close>

definition readFmt :: "byte list \<Rightarrow> nat \<Rightarrow> js_error + wav_fmt" where
  "readFmt buf offset =
     (case getUint 2 buf (offset + 8) of Inl e \<Rightarrow> Inl e | Inr af \<Rightarrow>
      case getUint 2 buf (offset + 10) of Inl e \<Rightarrow> Inl e | Inr nc \<Rightarrow>
      case getUint 4 buf (offset + 12) of Inl e \<Rightarrow> Inl e | Inr sr \<Rightarrow>
      case getUint 2 buf (offset + 22) of Inl e \<Rightarrow> Inl e | Inr bps \<Rightarrow>
        Inr \<lparr>audioFormat = af, numChannels = nc, sampleRate_fmt = sr, bitsPerSample = bps\<rparr>)"

definition chunkIdAt :: "byte list \<Rightarrow> nat \<Rightarrow> byte list" where
  "chunkIdAt buf offset = take 4 (drop offset buf)"

definition chunkSizeAt :: "byte list \<Rightarrow> nat \<Rightarrow> nat" where
  "chunkSizeAt buf offset = le_value (take 4 (drop (offset + 4) buf))"

text \<open>Line 139: where the next chunk header is.\<close>

definition nextChunk :: "byte list \<Rightarrow> nat \<Rightarrow> nat" where
  "nextChunk buf offset = offset + (8 + chunkSizeAt buf offset + chunkSizeAt buf offset mod 2)"

text \<open>Lines 119-140: the chunk walk. The result is the format in force and, when a data
  chunk was met, its \<open>(dataOffset, dataSize)\<close>; \<^term>\<open>None\<close> is \<open>dataOffset = -1\<close>. Inside
  the loop the eight header bytes are within the buffer, so only the reads of a format
  chunk can throw.\<close>

function chunkWalk :: "byte list \<Rightarrow> nat \<Rightarrow> wav_fmt \<Rightarrow> js_error + (wav_fmt \<times> (nat \<times> nat) option)" where
  "chunkWalk buf offset fmt =
     (if offset + 8 \<le> length buf then
        if chunkIdAt buf offset = bytes_of ''fmt '' then
          (case readFmt buf offset of
             Inl e \<Rightarrow> Inl e
           | Inr fmt' \<Rightarrow> chunkWalk buf (nextChunk buf offset) fmt')
        else if chunkIdAt buf offset = bytes_of ''data'' then
          Inr (fmt, Some (offset + 8, chunkSizeAt buf offset))
        else chunkWalk buf (nextChunk buf offset) fmt
      else Inr (fmt, None))"
  by pat_completeness auto
termination
  by (relation "measure (\<lambda>(buf, offset, fmt). length buf - offset)") (auto simp: nextChunk_def)

declare chunkWalk.simps [simp del]

text \<open>Lines 155-174: one sample. \<open>sampleIndex\<close> is a whole number in every branch that
  reads, because \<open>bitsPerSample\<close> is then a multiple of 8.\<close>

definition decodeSample :: "byte list \<Rightarrow> wav_fmt \<Rightarrow> real \<Rightarrow> js_error + sample" where
  "decodeSample buf fmt sampleIndex =
     (if audioFormat fmt = 3 \<and> bitsPerSample fmt = 32 then
        getFloat32 buf (nat \<lfloor>sampleIndex\<rfloor>)
      else if bitsPerSample fmt = 16 then
        (case getInt 2 buf (nat \<lfloor>sampleIndex\<rfloor>) of
           Inl e \<Rightarrow> Inl e | Inr v \<Rightarrow> Inr (Some (real_of_int v / 32768)))
      else if bitsPerSample fmt = 24 then
        (case getUint 1 buf (nat \<lfloor>sampleIndex\<rfloor>) of Inl e \<Rightarrow> Inl e | Inr b0 \<Rightarrow>
         case getUint 1 buf (nat \<lfloor>sampleIndex\<rfloor> + 1) of Inl e \<Rightarrow> Inl e | Inr b1 \<Rightarrow>
         case getUint 1 buf (nat \<lfloor>sampleIndex\<rfloor> + 2) of Inl e \<Rightarrow> Inl e | Inr b2 \<Rightarrow>
           let v = (push_bit 16 (word_of_nat b2) OR push_bit 8 (word_of_nat b1) OR word_of_nat b0 :: 32 word);
               v' = (if v AND 0x800000 \<noteq> 0 then v OR 0xff000000 else v)
           in Inr (Some (real_of_int (sint v') / 8388608)))
      else if bitsPerSample fmt = 32 then
        (case getInt 4 buf (nat \<lfloor>sampleIndex\<rfloor>) of
           Inl e \<Rightarrow> Inl e | Inr v \<Rightarrow> Inr (Some (real_of_int v / 2147483648)))
      else if bitsPerSample fmt = 8 then
        (case getUint 1 buf (nat \<lfloor>sampleIndex\<rfloor>) of
           Inl e \<Rightarrow> Inl e | Inr v \<Rightarrow> Inr (Some ((real v - 128) / 128)))
      else Inl (UnsupportedBitsPerSample (bitsPerSample fmt)))"

text \<open>The first exception of a sequence of steps ends it.\<close>

fun collect :: "('e + 'a) list \<Rightarrow> 'e + 'a list" where
  "collect [] = Inr []"
| "collect (x # xs) =
     (case x of
        Inl e \<Rightarrow> Inl e
      | Inr v \<Rightarrow> (case collect xs of Inl e \<Rightarrow> Inl e | Inr vs \<Rightarrow> Inr (v # vs)))"

text \<open>Lines 152-178: the samples in the order the two loops visit them, frame by frame
  and channel by channel within a frame.\<close>

definition decodeFrames :: "byte list \<Rightarrow> wav_fmt \<Rightarrow> nat \<Rightarrow> nat \<Rightarrow> js_error + sample list" where
  "decodeFrames buf fmt dataOffset totalSamples =
     collect
       (concat
          (map (\<lambda>i. map (\<lambda>channel.
                            decodeSample buf fmt
                              (real dataOffset
                                 + real (i * numChannels fmt + channel) * (real (bitsPerSample fmt) / 8)))
                         [0..<numChannels fmt])
               [0..<totalSamples]))"

text \<open>Lines 146-180, after the chunk walk found the data chunk. \<open>totalSamples\<close> is
  \<^verbatim>\<open>NaN\<close> when no data byte is available and \<open>bitsPerSample\<close> or \<open>numChannels\<close> is 0 (the
  channel arrays are then empty and the loop is skipped), and \<^verbatim>\<open>Infinity\<close> when data
  is available and one of them is 0: allocating a channel then throws, and with no
  channel to allocate the loop \<open>i < Infinity\<close> runs forever.\<close>

definition decodeData :: "byte list \<Rightarrow> wav_fmt \<Rightarrow> nat \<Rightarrow> nat \<Rightarrow> js_error + (sample list \<times> nat)" where
  "decodeData buf fmt dataOffset dataSize =
     (let availableDataSize = max 0 (min (int dataSize) (int (length buf) - int dataOffset));
          bytesPerSample = real (bitsPerSample fmt) / 8
      in if bitsPerSample fmt = 0 \<or> numChannels fmt = 0 then
           (if availableDataSize = 0 then Inr ([], sampleRate_fmt fmt)
            else if numChannels fmt = 0 then Inl NeverReturns
            else Inl RangeError)
         else
           let totalSamples = nat \<lfloor>real_of_int availableDataSize / bytesPerSample / real (numChannels fmt)\<rfloor>
           in case decodeFrames buf fmt dataOffset totalSamples of
                Inl e \<Rightarrow> Inl e
              | Inr flat \<Rightarrow>
                  Inr (mergeChannels
                         (map (\<lambda>channel. map (\<lambda>i. flat ! (i * numChannels fmt + channel)) [0..<totalSamples])
                              [0..<numChannels fmt]),
                       sampleRate_fmt fmt))"

text \<open>Lines 111-180: everything after the header test, from a walk position.\<close>

definition decodeFrom :: "byte list \<Rightarrow> nat \<Rightarrow> wav_fmt \<Rightarrow> js_error + (sample list \<times> nat)" where
  "decodeFrom buf offset fmt =
     (case chunkWalk buf offset fmt of
        Inl e \<Rightarrow> Inl e
      | Inr (fmt', None) \<Rightarrow> Inl DataChunkNotFound
      | Inr (fmt', Some (dataOffset, dataSize)) \<Rightarrow> decodeData buf fmt' dataOffset dataSize)"

text \<open>Lines 103-110: both tags are read, byte by byte, before they are compared.\<close>

definition decodeWav :: "byte list \<Rightarrow> js_error + (sample list \<times> nat)" where
  "decodeWav buf =
     (if length buf < 4 then Inl RangeError
      else if length buf < 12 then Inl RangeError
      else if take 4 buf \<noteq> bytes_of ''RIFF'' \<or> take 4 (drop 8 buf) \<noteq> bytes_of ''WAVE''
        then Inl InvalidWavHeader
      else decodeFrom buf 12 default_fmt)"

subsection \<open>Double precision\<close>

text \<open>Rounding to the nearest integer, a tie to the even one.\<close>

definition roundEven :: "real \<Rightarrow> int" where
  "roundEven y =
     (let f = \<lfloor>y\<rfloor>; d = y - of_int f
      in if d < 1 / 2 then f else if 1 / 2 < d then f + 1 else if even f then f else f + 1)"

text \<open>The double nearest to a real number (IEEE-754 binary64, round to nearest, ties to
  even): the number is scaled by a power of two into \<open>[2^52, 2^53)\<close>, rounded to an
  integer and scaled back. The exponent range is not modelled (no overflow to an
  infinity, no subnormals).\<close>

definition fl64 :: "real \<Rightarrow> real" where
  "fl64 x =
     (if x = 0 then 0
      else let e = \<lfloor>log 2 \<bar>x\<bar>\<rfloor> - 52
           in of_int (roundEven (x / 2 powr of_int e)) * 2 powr of_int e)"

subsection \<open>maybeResample\<close>

text \<open>Lines 193-197: output sample \<open>i\<close>; \<^term>\<open>None\<close> when a read is outside the input
  (\<^verbatim>\<open>undefined\<close>, and the sample \<^verbatim>\<open>NaN\<close>). The quotient \<open>i / ratio\<close> is a double; its
  floor and its fractional part are exact.\<close>

definition resampleAt :: "real list \<Rightarrow> real \<Rightarrow> nat \<Rightarrow> real option" where
  "resampleAt samples ratio i =
     (let srcPos = fl64 (real i / ratio);
          left = \<lfloor>srcPos\<rfloor>;
          right = min (int (length samples) - 1) (left + 1);
          frac = srcPos - of_int left
      in case elemAt samples left of
           None \<Rightarrow> None
         | Some l \<Rightarrow> (case elemAt samples right of
                        None \<Rightarrow> None
                      | Some r \<Rightarrow> Some (l * (1 - frac) + r * frac)))"

text \<open>Lines 183-201. The ratio and its product with the length are doubles. A rate of
  0 leaves the real numbers: a target rate 0 makes \<open>srcPos = 0 / 0\<close> and the one output
  sample \<^verbatim>\<open>NaN\<close>; a source rate 0 makes the ratio infinite, and the output length
  with it when the target rate is positive.\<close>

definition maybeResample :: "real list \<Rightarrow> real \<Rightarrow> real \<Rightarrow> js_error + (real list \<times> real)" where
  "maybeResample samples sampleRate targetRate =
     (if samples = [] \<or> sampleRate = targetRate then Inr (samples, sampleRate)
      else if targetRate = 0 then Inl NaNSamples
      else if sampleRate = 0 \<and> 0 < targetRate then Inl RangeError
      else if sampleRate = 0 then Inr ([samples ! 0], targetRate)
      else
        let ratio = fl64 (targetRate / sampleRate);
            outLength = nat (max 1 \<lfloor>fl64 (real (length samples) * ratio)\<rfloor>);
            out = map (resampleAt samples ratio) [0..<outLength]
        in if None \<in> set out then Inl NaNSamples
           else Inr (map the out, targetRate))"

section \<open>Concrete inputs\<close>

text \<open>Eleven samples of amplitude one millionth.\<close>

definition quiet :: "real list" where
  "quiet = [1 / 1000000, 1 / 1000000, 1 / 1000000, 1 / 1000000, 1 / 1000000, 1 / 1000000,
            1 / 1000000, 1 / 1000000, 1 / 1000000, 1 / 1000000, 1 / 1000000]"


text \<open>A 12-byte container header, a 16-byte format chunk for one channel at 22050 Hz
  with a given bit depth, a file of 12-bit samples with an empty data chunk, an unknown
  chunk of odd length 3 with its padding byte, and a format and data chunk with the two
  16-bit samples 16384 and -16384.\<close>

definition wav_header :: "byte list" where
  "wav_header = bytes_of ''RIFF'' @ [36, 0, 0, 0] @ bytes_of ''WAVE''"

definition fmt_chunk :: "byte \<Rightarrow> byte list" where
  "fmt_chunk bits =
     bytes_of ''fmt '' @ [16, 0, 0, 0]
       @ [1, 0, 1, 0, 0x22, 0x56, 0, 0, 0x44, 0xAC, 0, 0, 2, 0, bits, 0]"

definition wav12_empty :: "byte list" where
  "wav12_empty = wav_header @ fmt_chunk 12 @ bytes_of ''data'' @ [0, 0, 0, 0]"

definition odd_chunk :: "byte list" where
  "odd_chunk = bytes_of ''LIST'' @ [3, 0, 0, 0] @ [7, 8, 9] @ [0]"

definition wav16_tail :: "byte list" where
  "wav16_tail = fmt_chunk 16 @ bytes_of ''data'' @ [4, 0, 0, 0] @ [0, 0x40, 0, 0xC0]"

text \<open>Two more files of 12-bit samples, each with two data bytes: one that declares no
  channel, and one with one channel.\<close>

definition wav12_no_channels :: "byte list" where
  "wav12_no_channels =
     wav_header @ bytes_of ''fmt '' @ [16, 0, 0, 0]
       @ [1, 0, 0, 0, 0x22, 0x56, 0, 0, 0, 0, 0, 0, 0, 0, 12, 0]
       @ bytes_of ''data'' @ [2, 0, 0, 0] @ [0xFF, 0x7F]"

definition wav12_one_sample :: "byte list" where
  "wav12_one_sample = wav_header @ fmt_chunk 12 @ bytes_of ''data'' @ [2, 0, 0, 0] @ [0xFF, 0x7F]"

text \<open>A format chunk of 14 bytes (no \<open>bitsPerSample\<close> field), an empty unknown chunk
  whose id starts with the bytes 16 and 0, and a data chunk with four bytes.\<close>

definition fmt14_chunk :: "byte list" where
  "fmt14_chunk =
     bytes_of ''fmt '' @ [14, 0, 0, 0] @ [1, 0, 1, 0, 0x22, 0x56, 0, 0, 0x44, 0xAC, 0, 0, 2, 0]"

definition unknown16_chunk :: "byte list" where
  "unknown16_chunk = [0x10, 0, 0x78, 0x79] @ [0, 0, 0, 0]"

definition data16_chunk :: "byte list" where
  "data16_chunk = bytes_of ''data'' @ [4, 0, 0, 0] @ [0, 0x40, 0, 0xC0]"

section \<open>Auxiliary definitions\<close>

text \<open>Moving the data offset of a walk result.\<close>

definition shiftData :: "nat \<Rightarrow> js_error + (wav_fmt \<times> (nat \<times> nat) option)
    \<Rightarrow> js_error + (wav_fmt \<times> (nat \<times> nat) option)" where
  "shiftData d r =
     (case r of
        Inl e \<Rightarrow> Inl e
      | Inr (fmt, None) \<Rightarrow> Inr (fmt, None)
      | Inr (fmt, Some (dataOffset, dataSize)) \<Rightarrow> Inr (fmt, Some (d + dataOffset, dataSize)))"

section \<open>Properties of music.js\<close>

lemma js_rem_12_bounds: "- 12 < js_rem n 12 \<and> js_rem n 12 < 12"
proof -
  have "0 \<le> \<bar>n\<bar> mod 12" "\<bar>n\<bar> mod 12 < 12" by simp_all
  then show ?thesis
    by (cases "n < 0"; cases "n = 0") (simp_all add: js_rem_def)
qed

lemma js_rem_nonneg: "0 \<le> a \<Longrightarrow> js_rem a 12 = a mod 12"
  by (cases "a = 0") (simp_all add: js_rem_def)

lemma noteIndex_range: "0 \<le> noteIndex n \<and> noteIndex n < 12"
proof -
  have "0 \<le> js_rem n 12 + 12" using js_rem_12_bounds [of n] by simp
  then have "noteIndex n = (js_rem n 12 + 12) mod 12"
    by (simp add: noteIndex_def js_rem_nonneg)
  then show ?thesis by simp
qed

text \<open>
  Claim C9. For every integer \<open>nearestMidi\<close>, negative ones included, the index
  \<^verbatim>\<open>((nearestMidi % 12) + 12) % 12\<close> lies between 0 and 11, so the read of
  \<^verbatim>\<open>NOTE_NAMES\<close> in \<^verbatim>\<open>hzToNote\<close> is inside the 12-entry table and yields a name.
\<close>

theorem C9_note_index_in_table:
  "0 \<le> noteIndex nearestMidi \<and> noteIndex nearestMidi \<le> 11
   \<and> length NOTE_NAMES = 12
   \<and> elemAt NOTE_NAMES (noteIndex nearestMidi) = Some (NOTE_NAMES ! nat (noteIndex nearestMidi))"
  using noteIndex_range [of nearestMidi] by (simp add: elemAt_def NOTE_NAMES_def)

text \<open>
  Claim C5. \<^verbatim>\<open>suggestChords("C Major")\<close> is exactly C, Dm, Em, F, G, Am, Bdim and
  \<^verbatim>\<open>suggestChords("A Minor")\<close> is exactly Am, Bdim, C, Dm, Em, F, G, in scale-degree order.
\<close>

theorem C5_suggestChords_examples:
  "suggestChords (Some ''C Major'') = [''C'', ''Dm'', ''Em'', ''F'', ''G'', ''Am'', ''Bdim'']
   \<and> suggestChords (Some ''A Minor'') = [''Am'', ''Bdim'', ''C'', ''Dm'', ''Em'', ''F'', ''G'']"
  by (simp add: suggestChords_def chordNames_def NOTE_NAMES_def elemAt_def js_rem_def show_name_def)

lemma js_split_field:
  "sep \<notin> set w \<Longrightarrow> js_split sep (w @ sep # rest) = w # js_split sep rest"
  by (induction w) (auto split: list.splits)

lemma js_split_single: "sep \<notin> set w \<Longrightarrow> js_split sep w = [w]"
  by (induction w) (auto split: list.splits)

lemma js_split_hd: "\<exists>rest. js_split sep s = takeWhile (\<lambda>c. c \<noteq> sep) s # rest"
  by (induction s) (auto split: list.splits)

lemma indexOf_neg_iff: "indexOf xs y < 0 \<longleftrightarrow> y \<notin> set xs"
  by (induction xs) (auto simp: Let_def)

lemma indexOf_ge: "- 1 \<le> indexOf xs y"
  by (induction xs) (auto simp: Let_def)

lemma chordNames_7:
  "length intervals = 7 \<Longrightarrow> chordNames b intervals suffixes \<noteq> []"
  by (auto simp: chordNames_def)

lemma NOTE_NAMES_no_space: "rootName \<in> set NOTE_NAMES \<Longrightarrow> CHR '' '' \<notin> set rootName"
  by (auto simp: NOTE_NAMES_def)

lemma suggestChords_Some:
  "k \<noteq> [] \<Longrightarrow> suggestChords (Some k) =
     (let baseNote = takeWhile (\<lambda>c. c \<noteq> CHR '' '') k;
          scaleType = (case tl (js_split CHR '' '' k) of [] \<Rightarrow> None | m # _ \<Rightarrow> Some m);
          baseIdx = indexOf NOTE_NAMES baseNote
      in if baseIdx < 0 then []
         else if scaleType = Some ''Major'' then
           chordNames baseIdx [0, 2, 4, 5, 7, 9, 11] ['''', ''m'', ''m'', '''', '''', ''m'', ''dim'']
         else
           chordNames baseIdx [0, 2, 3, 5, 7, 8, 10] [''m'', ''dim'', '''', ''m'', ''m'', '''', ''''])"
  using js_split_hd [of "CHR '' ''" k] by (auto simp: suggestChords_def Let_def)

text \<open>
  Claim C10, as amended. For a key name \<open>Root\<close>, one space, \<open>Mode\<close> with \<open>Root\<close> in the
  pitch-class table, \<^verbatim>\<open>suggestChords\<close> uses the Major pattern when the first word of
  \<open>Mode\<close> (its text up to the first space, the second space-separated field of the key
  name) is exactly \<^verbatim>\<open>Major\<close>, and the Minor pattern for every other first word; a key
  name that is only \<open>Root\<close> gets the Minor pattern; and the result is empty exactly when
  the key name is \<^verbatim>\<open>null\<close> or empty, or the text before its first space is not in the
  table.
\<close>

theorem C10_suggestChords_mode:
  assumes "rootName \<in> set NOTE_NAMES"
  shows "suggestChords (Some (rootName @ '' '' @ mode)) =
           (if takeWhile (\<lambda>c. c \<noteq> CHR '' '') mode = ''Major''
            then chordNames (indexOf NOTE_NAMES rootName) [0, 2, 4, 5, 7, 9, 11] ['''', ''m'', ''m'', '''', '''', ''m'', ''dim'']
            else chordNames (indexOf NOTE_NAMES rootName) [0, 2, 3, 5, 7, 8, 10] [''m'', ''dim'', '''', ''m'', ''m'', '''', ''''])
         \<and> suggestChords (Some rootName) =
             chordNames (indexOf NOTE_NAMES rootName) [0, 2, 3, 5, 7, 8, 10] [''m'', ''dim'', '''', ''m'', ''m'', '''', '''']
         \<and> suggestChords (Some (rootName @ '' '' @ mode)) \<noteq> []
         \<and> (suggestChords key = [] \<longleftrightarrow>
              key = None \<or> key = Some [] \<or>
              (\<exists>k. key = Some k \<and> takeWhile (\<lambda>c. c \<noteq> CHR '' '') k \<notin> set NOTE_NAMES))"
proof -
  have sp: "CHR '' '' \<notin> set rootName" using assms(1) by (rule NOTE_NAMES_no_space)
  obtain rest where rest: "js_split CHR '' '' mode = takeWhile (\<lambda>c. c \<noteq> CHR '' '') mode # rest"
    using js_split_hd [of "CHR '' ''" mode] by blast
  have split: "js_split CHR '' '' (rootName @ CHR '' '' # mode)
                 = rootName # takeWhile (\<lambda>c. c \<noteq> CHR '' '') mode # rest"
    using js_split_field [OF sp, of mode] rest by simp
  have idx: "\<not> indexOf NOTE_NAMES rootName < 0" using assms(1) by (simp add: indexOf_neg_iff)
  have ne: "rootName \<noteq> []" using assms(1) by (auto simp: NOTE_NAMES_def)
  have one: "suggestChords (Some (rootName @ '' '' @ mode)) =
           (if takeWhile (\<lambda>c. c \<noteq> CHR '' '') mode = ''Major''
            then chordNames (indexOf NOTE_NAMES rootName) [0, 2, 4, 5, 7, 9, 11] ['''', ''m'', ''m'', '''', '''', ''m'', ''dim'']
            else chordNames (indexOf NOTE_NAMES rootName) [0, 2, 3, 5, 7, 8, 10] [''m'', ''dim'', '''', ''m'', ''m'', '''', ''''])"
    using idx by (simp add: suggestChords_def split)
  have alone: "suggestChords (Some rootName) =
             chordNames (indexOf NOTE_NAMES rootName) [0, 2, 3, 5, 7, 8, 10] [''m'', ''dim'', '''', ''m'', ''m'', '''', '''']"
    using idx ne by (simp add: suggestChords_def js_split_single [OF sp])
  have two: "suggestChords (Some (rootName @ '' '' @ mode)) \<noteq> []"
    unfolding one by (simp add: chordNames_7)
  have three: "suggestChords key = [] \<longleftrightarrow>
              key = None \<or> key = Some [] \<or>
              (\<exists>k. key = Some k \<and> takeWhile (\<lambda>c. c \<noteq> CHR '' '') k \<notin> set NOTE_NAMES)"
  proof (cases key)
    case None
    then show ?thesis by (simp add: suggestChords_def)
  next
    case (Some k)
    show ?thesis
    proof (cases "k = []")
      case True
      then show ?thesis using Some by (simp add: suggestChords_def)
    next
      case False
      then show ?thesis using Some
        by (auto simp: suggestChords_Some Let_def indexOf_neg_iff chordNames_7)
    qed
  qed
  from one alone two three show ?thesis by blast
qed

theorem C10_suggestChords_mode_witness:
  "''D'' \<in> set NOTE_NAMES
   \<and> suggestChords (Some ''D Dorian'') = [''Dm'', ''Edim'', ''F'', ''Gm'', ''Am'', ''A#'', ''C'']
   \<and> suggestChords (Some ''D Major scale'') = [''D'', ''Em'', ''F#m'', ''G'', ''A'', ''Bm'', ''C#dim'']
   \<and> suggestChords (Some ''D'') = [''Dm'', ''Edim'', ''F'', ''Gm'', ''Am'', ''A#'', ''C'']
   \<and> suggestChords (Some ''H Major'') = []"
proof -
  have a: "''D'' \<in> set NOTE_NAMES" by (simp add: NOTE_NAMES_def)
  have c: "suggestChords (Some ''H Major'') = []"
    using C10_suggestChords_mode [OF a, of _ "Some ''H Major''"] by (simp add: NOTE_NAMES_def)
  have d: "suggestChords (Some ''D Dorian'') = [''Dm'', ''Edim'', ''F'', ''Gm'', ''Am'', ''A#'', ''C'']"
    using C10_suggestChords_mode [OF a, of "''Dorian''" None]
    by (simp add: chordNames_def NOTE_NAMES_def elemAt_def js_rem_def show_name_def)
  have e: "suggestChords (Some ''D Major scale'') = [''D'', ''Em'', ''F#m'', ''G'', ''A'', ''Bm'', ''C#dim'']"
    using C10_suggestChords_mode [OF a, of "''Major scale''" None]
    by (simp add: chordNames_def NOTE_NAMES_def elemAt_def js_rem_def show_name_def)
  have f: "suggestChords (Some ''D'') = [''Dm'', ''Edim'', ''F'', ''Gm'', ''Am'', ''A#'', ''C'']"
    using C10_suggestChords_mode [OF a, of "''Dorian''" None]
    by (simp add: chordNames_def NOTE_NAMES_def elemAt_def js_rem_def show_name_def)
  from a c d e f show ?thesis by blast
qed

text \<open>
  Claim C10 as stated fails for a mode of more than one word: in \<^verbatim>\<open>C Major 7\<close> the mode
  \<^verbatim>\<open>Major 7\<close> is not exactly \<^verbatim>\<open>Major\<close>, but \<^verbatim>\<open>split(" ")\<close> gives the fields \<^verbatim>\<open>C\<close>,
  \<^verbatim>\<open>Major\<close>, \<^verbatim>\<open>7\<close>, line 166 keeps the first two, and the Major pattern is applied, not
  the Minor one.
\<close>

theorem C10_multiword_mode_counterexample:
  "''Major 7'' \<noteq> ''Major''
   \<and> suggestChords (Some (''C'' @ '' '' @ ''Major 7'')) = [''C'', ''Dm'', ''Em'', ''F'', ''G'', ''Am'', ''Bdim'']
   \<and> suggestChords (Some (''C'' @ '' '' @ ''Major 7''))
       \<noteq> chordNames (indexOf NOTE_NAMES ''C'') [0, 2, 3, 5, 7, 8, 10] [''m'', ''dim'', '''', ''m'', ''m'', '''', '''']"
  by (simp add: suggestChords_def chordNames_def NOTE_NAMES_def elemAt_def js_rem_def show_name_def)

lemma hzToNote_pos:
  "0 < f \<Longrightarrow> hzToNote (Some f) =
     \<lparr>noteName = Some (show_name (elemAt NOTE_NAMES (noteIndex (round (69 + 12 * log 2 (f / 440)))))
                       @ string_of_int (\<lfloor>(of_int (round (69 + 12 * log 2 (f / 440))) :: real) / 12\<rfloor> - 1)),
      centsOff = Some ((69 + 12 * log 2 (f / 440) - of_int (round (69 + 12 * log 2 (f / 440)))) * 100),
      targetFreq = Some (440 * (2 powr ((of_int (round (69 + 12 * log 2 (f / 440))) - 69) / 12)))\<rparr>"
  by (simp add: hzToNote_def Let_def)

lemma midi_of_target: "69 + 12 * log 2 (440 * (2 powr ((of_int n - 69) / 12)) / 440) = of_int n"
proof -
  have "log 2 (440 * (2 powr ((of_int n - 69) / 12)) / 440) = (of_int n - 69) / 12"
    by simp
  then show ?thesis by (simp add: field_simps)
qed

text \<open>
  Claim C7. For every frequency \<open>f > 0\<close>, mapping the target frequency of
  \<^verbatim>\<open>hzToNote(f)\<close> again gives a deviation of 0 cents, the same note name and the same
  target frequency.
\<close>

theorem C7_hzToNote_idempotent:
  assumes "0 < f"
  shows "centsOff (hzToNote (targetFreq (hzToNote (Some f)))) = Some 0
         \<and> noteName (hzToNote (targetFreq (hzToNote (Some f)))) = noteName (hzToNote (Some f))
         \<and> targetFreq (hzToNote (targetFreq (hzToNote (Some f)))) = targetFreq (hzToNote (Some f))
         \<and> noteName (hzToNote (Some f)) \<noteq> None"
proof -
  define n where "n = round (69 + 12 * log 2 (f / 440))"
  define t where "t = 440 * (2 powr ((of_int n - 69) / 12) :: real)"
  have tpos: "0 < t" by (simp add: t_def)
  have first: "targetFreq (hzToNote (Some f)) = Some t"
    using assms by (simp add: hzToNote_pos n_def t_def)
  have m: "69 + 12 * log 2 (t / 440) = of_int n"
    unfolding t_def by (rule midi_of_target)
  have r: "round (69 + 12 * log 2 (t / 440)) = n"
    unfolding m by simp
  show ?thesis
    unfolding first
    using assms by (simp add: hzToNote_pos [OF tpos] r m hzToNote_pos n_def [symmetric] t_def [symmetric])
qed

theorem C7_hzToNote_idempotent_witness:
  "(0::real) < 440
   \<and> centsOff (hzToNote (targetFreq (hzToNote (Some 440)))) = Some 0
   \<and> noteName (hzToNote (targetFreq (hzToNote (Some 440)))) = noteName (hzToNote (Some 440))
   \<and> targetFreq (hzToNote (targetFreq (hzToNote (Some 440)))) = targetFreq (hzToNote (Some 440))
   \<and> noteName (hzToNote (Some 440)) \<noteq> None"
  using C7_hzToNote_idempotent [of 440] by simp

lemma fold_score_zero:
  "\<forall>j\<in>set js. chroma ! j = 0 \<Longrightarrow> fold (\<lambda>j score. score + chroma ! j * (normalized :: real list) ! j) js acc = acc"
  by (induction js arbitrary: acc) auto

lemma keyScore_zero: "keyScore (replicate 12 0) i template = 0"
  unfolding keyScore_def Let_def by (rule fold_score_zero) simp

lemma keyStep_settled:
  "keyStep (replicate 12 0) i cand (Some 0, k) = (Some 0, k)"
  by (cases cand) (simp add: keyStep_def keyScore_zero)

lemma keyStep_first:
  "keyStep (replicate 12 0) i (template, suffix) (None, None)
     = (Some 0, Some (show_name (elemAt NOTE_NAMES (int i)) @ '' '' @ suffix))"
  by (simp add: keyStep_def keyScore_zero)

lemma keyRoot_settled: "keyRoot (replicate 12 0) i (Some 0, k) = (Some 0, k)"
  by (simp add: keyRoot_def keyStep_settled)

lemma key_roots_settled:
  "fold (keyRoot (replicate 12 0)) roots (Some 0, k) = (Some 0, k)"
  by (induction roots) (simp_all add: keyRoot_settled)

lemma keyLoop_zero: "keyLoop (replicate 12 0) = (Some 0, Some ''C Major'')"
proof -
  have len: "length NOTE_NAMES = 12"
    by (simp add: NOTE_NAMES_def)
  have roots: "[0..<length NOTE_NAMES] = 0 # [Suc 0..<12]"
    unfolding len by (rule upt_conv_Cons) simp
  have first: "keyRoot (replicate 12 0) 0 (None, None) = (Some 0, Some ''C Major'')"
    by (simp add: keyRoot_def keyStep_first keyStep_settled elemAt_def NOTE_NAMES_def show_name_def)
  show ?thesis
    unfolding keyLoop_def roots by (simp add: first key_roots_settled)
qed

lemma resonator_zero:
  "\<forall>x\<in>set frame. x = 0 \<Longrightarrow>
     fold (\<lambda>x (sPrev, sPrev2). (x + coeff * sPrev - sPrev2, sPrev)) frame (0, 0) = (0, 0 :: real)"
  by (induction frame) auto

lemma pitchClassEnergy_zero:
  "\<forall>x\<in>set frame. x = 0 \<Longrightarrow> pitchClassEnergy frame sampleRate freq = 0"
  by (simp add: pitchClassEnergy_def Let_def resonator_zero)

lemma octave_fold_zero:
  "\<forall>x\<in>set frame. x = 0 \<Longrightarrow>
   fold (\<lambda>octave acc.
             let midi = 12 * (octave + 1) + pitchClass;
                 freq = 440 * (2 powr ((real midi - 69) / 12))
             in if freq < 40 \<or> freq > sampleRate / 2 - 100 then acc
                else acc + pitchClassEnergy frame sampleRate freq) octaves acc = acc"
  by (induction octaves arbitrary: acc) (auto simp: Let_def pitchClassEnergy_zero)

lemma octaveAcc_zero:
  "\<forall>x\<in>set frame. x = 0 \<Longrightarrow> octaveAcc frame sampleRate pitchClass = 0"
  unfolding octaveAcc_def by (rule octave_fold_zero)

lemma frame_zero: "\<forall>x\<in>set samples. x = 0 \<Longrightarrow> \<forall>x\<in>set (take n (drop start samples)). (x::real) = 0"
  by (meson in_set_dropD in_set_takeD)

lemma chromaFrames_zero:
  "\<forall>x\<in>set samples. x = 0 \<Longrightarrow>
     chromaFrames samples sampleRate frameSize start (replicate 12 0) = replicate 12 0"
proof (induction samples sampleRate frameSize start "replicate 12 (0::real)" rule: chromaFrames.induct)
  case (1 samples sampleRate frameSize start)
  have upd: "map (\<lambda>pitchClass. replicate 12 (0::real) ! pitchClass
               + octaveAcc (take frameSize (drop start samples)) sampleRate pitchClass) [0..<12]
             = replicate 12 0"
  proof -
    have "map (\<lambda>pitchClass. replicate 12 (0::real) ! pitchClass
               + octaveAcc (take frameSize (drop start samples)) sampleRate pitchClass) [0..<12]
          = map (\<lambda>pitchClass. 0) [0..<12]"
      using frame_zero [OF "1.prems"] by (intro map_cong refl) (simp add: octaveAcc_zero)
    then show ?thesis by (simp add: map_replicate_const)
  qed
  show ?case
    using 1 upd by (subst chromaFrames.simps) simp
qed

lemma hypot_zero: "hypot (replicate n 0) = 0"
  by (induction n) (simp_all add: hypot_def)

lemma estimateChroma_silent:
  "\<forall>x\<in>set samples. x = 0 \<Longrightarrow> estimateChroma samples sampleRate = replicate 12 0"
  by (simp add: estimateChroma_def Let_def chromaFrames_zero hypot_zero)

lemma estimateChroma_short:
  "length samples < 1024 \<Longrightarrow> estimateChroma samples sampleRate = replicate 12 0"
  by (simp add: estimateChroma_def Let_def)

text \<open>
  Claim C1. For a non-empty signal at a positive sample rate whose chroma vector is all
  zero (in particular a signal shorter than 1024 samples, and a signal of zero samples
  only), \<^verbatim>\<open>detectKey\<close> returns the key name \<^verbatim>\<open>C Major\<close>, the first candidate in
  iteration order, with confidence exactly 0.
\<close>

theorem C1_detectKey_zero_chroma:
  assumes "samples \<noteq> []" and "0 < sampleRate"
    and "length samples < 1024 \<or> (\<forall>x\<in>set samples. x = 0)
         \<or> estimateChroma (take (nat \<lfloor>min (real (length samples)) (sampleRate * 30)\<rfloor>) samples) sampleRate
              = replicate 12 0"
  shows "detectKey samples sampleRate = \<lparr>keyName = Some ''C Major'', confidence = 0\<rparr>"
proof -
  let ?d = "take (nat \<lfloor>min (real (length samples)) (sampleRate * 30)\<rfloor>) samples"
  have "estimateChroma ?d sampleRate = replicate 12 0"
    using assms(3)
  proof (elim disjE)
    assume "length samples < 1024"
    then have "length ?d < 1024" by simp
    then show ?thesis by (rule estimateChroma_short)
  next
    assume "\<forall>x\<in>set samples. x = 0"
    then have "\<forall>x\<in>set ?d. x = 0" by (meson in_set_takeD)
    then show ?thesis by (rule estimateChroma_silent)
  qed
  then show ?thesis
    using assms(1,2) by (simp add: detectKey_def Let_def keyLoop_zero)
qed

theorem C1_detectKey_zero_chroma_witness:
  "[0.5, - 0.25] \<noteq> ([] :: real list) \<and> (0::real) < 22050
   \<and> detectKey [0.5, - 0.25] 22050 = \<lparr>keyName = Some ''C Major'', confidence = 0\<rparr>
   \<and> detectKey (replicate 2048 0) 22050 = \<lparr>keyName = Some ''C Major'', confidence = 0\<rparr>"
proof -
  have r: "(0::real) < 22050" by simp
  have a: "detectKey [0.5, - 0.25] 22050 = \<lparr>keyName = Some ''C Major'', confidence = 0\<rparr>"
    by (rule C1_detectKey_zero_chroma [OF _ r disjI1]) simp_all
  have b: "detectKey (replicate 2048 0) 22050 = \<lparr>keyName = Some ''C Major'', confidence = 0\<rparr>"
    by (rule C1_detectKey_zero_chroma [OF _ r disjI2 [OF disjI1]]) simp_all
  from a b show ?thesis by simp
qed

lemma maxAbs_fold_zero:
  "\<forall>x\<in>set samples. x = 0 \<Longrightarrow> fold (\<lambda>s mx. if \<bar>s\<bar> > mx then \<bar>s\<bar> else mx) samples 0 = (0::real)"
  by (induction samples) auto

lemma maxAbs_zero: "\<forall>x\<in>set samples. x = 0 \<Longrightarrow> maxAbs samples = 0"
  unfolding maxAbs_def by (rule maxAbs_fold_zero)

lemma sumsq_zero:
  "\<forall>x\<in>set samples. x = 0 \<Longrightarrow> fold (\<lambda>s sum. sum + s * s) samples 0 = (0::real)"
  by (induction samples) auto

lemma rms_zero: "\<forall>x\<in>set samples. x = 0 \<Longrightarrow> rms samples = 0"
  by (simp add: rms_def sumsq_zero)

lemma detectPitch_gate:
  "rms (normalize_samples samples) < 0.01 \<Longrightarrow> detectPitch samples sampleRate = None"
  by (simp add: detectPitch_def Let_def)

text \<open>The two loops of \<^verbatim>\<open>normalize\<close> and \<^verbatim>\<open>rms\<close> compute the largest absolute sample
  and the sum of the squares.\<close>

lemma maxAbs_fold_Max:
  "fold (\<lambda>s mx. if \<bar>s\<bar> > mx then \<bar>s\<bar> else mx) samples a = Max (insert a (abs ` set samples))"
proof (induction samples arbitrary: a)
  case Nil
  then show ?case by simp
next
  case (Cons x xs)
  have "(if \<bar>x\<bar> > a then \<bar>x\<bar> else a) = max a \<bar>x\<bar>" by (auto simp: max_def)
  then have "fold (\<lambda>s mx. if \<bar>s\<bar> > mx then \<bar>s\<bar> else mx) (x # xs) a
               = Max (insert (max a \<bar>x\<bar>) (abs ` set xs))"
    by (simp add: Cons.IH)
  also have "\<dots> = Max (insert a (insert \<bar>x\<bar> (abs ` set xs)))"
  proof (cases "xs = []")
    case True
    then show ?thesis by (simp add: max.commute)
  next
    case False
    then show ?thesis by (simp add: max.assoc)
  qed
  finally show ?case by simp
qed

lemma maxAbs_Max: "maxAbs samples = Max (insert 0 (abs ` set samples))"
  unfolding maxAbs_def by (rule maxAbs_fold_Max)

lemma rms_sum: "samples \<noteq> [] \<Longrightarrow> rms samples = sqrt ((\<Sum>s\<leftarrow>samples. s * s) / real (length samples))"
proof -
  have "fold (\<lambda>s sum. sum + s * s) samples a = a + (\<Sum>s\<leftarrow>samples. s * s)" for a :: real
    by (induction samples arbitrary: a) simp_all
  then show "samples \<noteq> [] \<Longrightarrow> ?thesis" by (simp add: rms_def)
qed

text \<open>
  Claim C2, as amended. A signal of zero samples only gets "no pitch". The signal is first
  peak-normalised by its largest absolute sample (unchanged when that is not positive),
  and every signal whose normalised root-mean-square energy is below 0.01 gets "no pitch".
  Nothing is promised for a quiet signal that is not silent: the normalisation removes
  its scale before the energy test.
\<close>

theorem C2_detectPitch_silence:
  "((\<forall>x\<in>set samples. x = 0) \<longrightarrow> detectPitch samples sampleRate = None)
   \<and> maxAbs samples = Max (insert 0 (abs ` set samples))
   \<and> (maxAbs samples \<le> 0 \<longrightarrow> normalize_samples samples = samples)
   \<and> (0 < maxAbs samples \<longrightarrow> normalize_samples samples = map (\<lambda>s. s / maxAbs samples) samples)
   \<and> (samples \<noteq> [] \<longrightarrow>
         rms (normalize_samples samples)
           = sqrt ((\<Sum>s\<leftarrow>normalize_samples samples. s * s) / real (length samples)))
   \<and> (rms (normalize_samples samples) < 0.01 \<longrightarrow> detectPitch samples sampleRate = None)"
proof -
  have len: "length (normalize_samples samples) = length samples"
    by (simp add: normalize_samples_def Let_def)
  have r: "rms (normalize_samples samples)
           = sqrt ((\<Sum>s\<leftarrow>normalize_samples samples. s * s) / real (length samples))"
    if "samples \<noteq> []"
  proof -
    from that have "normalize_samples samples \<noteq> []" using len by (metis length_0_conv)
    from rms_sum [OF this] show ?thesis by (simp only: len)
  qed
  have "detectPitch samples sampleRate = None" if z: "\<forall>x\<in>set samples. x = 0"
  proof -
    have "normalize_samples samples = samples"
      by (simp add: normalize_samples_def maxAbs_zero [OF z])
    then have "rms (normalize_samples samples) < 0.01"
      by (simp add: rms_zero [OF z])
    then show ?thesis by (rule detectPitch_gate)
  qed
  then have a: "(\<forall>x\<in>set samples. x = 0) \<longrightarrow> detectPitch samples sampleRate = None"
    by blast
  have b: "maxAbs samples = Max (insert 0 (abs ` set samples))"
    by (rule maxAbs_Max)
  have c: "maxAbs samples \<le> 0 \<longrightarrow> normalize_samples samples = samples"
    by (simp add: normalize_samples_def)
  have d: "0 < maxAbs samples \<longrightarrow> normalize_samples samples = map (\<lambda>s. s / maxAbs samples) samples"
    by (simp add: normalize_samples_def Let_def)
  have e: "rms (normalize_samples samples) < 0.01 \<longrightarrow> detectPitch samples sampleRate = None"
    by (simp add: detectPitch_gate)
  from a b c d r e show ?thesis by blast
qed

theorem C2_detectPitch_silence_witness:
  "detectPitch [0, 0, 0] 22050 = None
   \<and> maxAbs [0, 0, 0] \<le> 0 \<and> normalize_samples [0, 0, 0] = [0, 0, 0]
   \<and> rms (normalize_samples [0, 0, 0]) < 0.01
   \<and> 0 < maxAbs [1 / 4, - (1 / 2)] \<and> normalize_samples [1 / 4, - (1 / 2)] = [1 / 2, - 1]"
proof -
  have m: "maxAbs [1 / 4, - (1 / 2)] = 1 / 2" "maxAbs [0, 0, 0] = 0"
    by (simp_all add: maxAbs_def)
  have r: "rms (normalize_samples [0, 0, 0]) < 0.01"
    by (simp add: normalize_samples_def rms_def m)
  show ?thesis
    using C2_detectPitch_silence [of "[0, 0, 0]" 22050] C2_detectPitch_silence [of "[1 / 4, - (1 / 2)]" 22050] r
    by (simp add: m)
qed

lemma lagStep_past_end: "int (length y) \<le> lag \<Longrightarrow> lagStep y lag best = best"
  by (simp add: lagStep_def lagSums_def)

lemma lag_fold_past_end:
  "\<forall>lag\<in>set lags. int (length y) \<le> lag \<Longrightarrow> fold (lagStep y) lags best = best"
  by (induction lags) (simp_all add: lagStep_past_end)

lemma quiet_normalized: "normalize_samples quiet = [1, 1, 1, 1, 1, 1, 1, 1, 1, 1, 1]"
  by (simp add: normalize_samples_def maxAbs_def quiet_def)

lemma quiet_lags: "\<lfloor>22050 / 2093.0 :: real\<rfloor> = 10" "\<lfloor>22050 / 65.41 :: real\<rfloor> = 337"
  by simp_all

lemma detectPitch_found:
  assumes "samples \<noteq> []" and "0 < sampleRate"
    and "\<not> rms (normalize_samples samples) < 0.01"
    and "fold (lagStep (normalize_samples samples))
           [\<lfloor>sampleRate / 2093.0\<rfloor>..\<lfloor>sampleRate / 65.41\<rfloor>] (- 1, 0) = (bestLag, bestCorr)"
    and "0 < bestLag" and "0.35 \<le> bestCorr"
  shows "detectPitch samples sampleRate = Some (sampleRate / of_int bestLag)"
  using assms by (simp add: detectPitch_def Let_def)

lemma quiet_rms: "rms [1, 1, 1, 1, 1, 1, 1, 1, 1, 1, 1] = 1"
  by (simp add: rms_def)

lemma quiet_first: "lagStep [1, 1, 1, 1, 1, 1, 1, 1, 1, 1, 1] 10 (- 1, 0) = (10, 1)"
  by (simp add: lagStep_def lagSums_def)

text \<open>
  Claim C2 as stated fails: eleven samples of amplitude one millionth at 22050 Hz are
  normalised to eleven ones, pass the energy test with a root-mean-square of 1, correlate
  perfectly at the first lag 10, and \<^verbatim>\<open>detectPitch\<close> returns 2205 Hz.
\<close>

theorem C2_quiet_signal_counterexample:
  "maxAbs quiet = 1 / 1000000 \<and> detectPitch quiet 22050 = Some 2205"
proof -
  let ?y = "[1, 1, 1, 1, 1, 1, 1, 1, 1, 1, 1 :: real]"
  have u: "[10..337] = 10 # [11..337]"
    by (subst upto.simps) simp
  have "fold (lagStep ?y) [11..337] (10, 1) = (10, 1)"
    by (rule lag_fold_past_end) simp
  then have best: "fold (lagStep ?y) [10..337] (- 1, 0) = (10, 1)"
    unfolding u by (simp add: quiet_first)
  have best': "fold (lagStep (normalize_samples quiet))
           [\<lfloor>22050 / 2093.0 :: real\<rfloor>..\<lfloor>22050 / 65.41 :: real\<rfloor>] (- 1, 0) = (10, 1)"
    unfolding quiet_normalized quiet_lags by (rule best)
  have "detectPitch quiet 22050 = Some (22050 / of_int 10)"
    by (rule detectPitch_found [OF _ _ _ best']) (simp_all add: quiet_normalized quiet_rms, simp add: quiet_def)
  then have "detectPitch quiet 22050 = Some 2205" by simp
  moreover have "maxAbs quiet = 1 / 1000000"
    by (simp add: maxAbs_def quiet_def)
  ultimately show ?thesis by simp
qed

section \<open>Properties of the audio pipeline\<close>

text \<open>Rounding to double precision: the error is at most \<open>2^-53\<close> of the number, and a
  number that some integer of 53 bits represents after scaling is found by that integer.\<close>

lemma roundEven_error: "\<bar>of_int (roundEven y) - y\<bar> \<le> 1 / 2"
  unfolding roundEven_def Let_def by (auto simp: abs_if) linarith+

lemma roundEven_unique:
  assumes "\<bar>y - of_int m\<bar> < 1 / 2"
  shows "roundEven y = m"
proof -
  have "\<bar>of_int (roundEven y) - y\<bar> \<le> 1 / 2" by (rule roundEven_error)
  with assms have "\<bar>(of_int (roundEven y) :: real) - of_int m\<bar> < 1" by linarith
  then have "\<bar>roundEven y - m\<bar> < 1" by (metis of_int_diff of_int_abs of_int_less_1_iff)
  then show ?thesis by simp
qed

lemma scaled_range:
  assumes "x \<noteq> 0"
  defines "e \<equiv> \<lfloor>log 2 \<bar>x\<bar>\<rfloor> - 52"
  shows "2 ^ 52 \<le> \<bar>x\<bar> / 2 powr of_int e" and "\<bar>x\<bar> / 2 powr of_int e < 2 ^ 53"
proof -
  let ?l = "\<lfloor>log 2 \<bar>x\<bar>\<rfloor>"
  have pos: "0 < \<bar>x\<bar>" using assms(1) by simp
  have lo: "2 powr of_int ?l \<le> \<bar>x\<bar>"
  proof -
    have "of_int ?l \<le> log 2 \<bar>x\<bar>" by simp
    then have "2 powr of_int ?l \<le> 2 powr log 2 \<bar>x\<bar>" by simp
    then show ?thesis using pos by simp
  qed
  have hi: "\<bar>x\<bar> < 2 powr (of_int ?l + 1)"
  proof -
    have "log 2 \<bar>x\<bar> < of_int ?l + 1" by linarith
    then have "2 powr log 2 \<bar>x\<bar> < 2 powr (of_int ?l + 1)" by simp
    then show ?thesis using pos by simp
  qed
  have split: "2 powr (of_int ?l :: real) = 2 powr (of_int e) * 2 ^ 52"
    unfolding e_def by (simp add: powr_diff)
  have split1: "2 powr (of_int ?l + 1 :: real) = 2 powr (of_int e) * 2 ^ 53"
    unfolding e_def by (simp add: powr_diff powr_add)
  have p: "0 < 2 powr (of_int e :: real)" by simp
  show "2 ^ 52 \<le> \<bar>x\<bar> / 2 powr of_int e"
    using lo unfolding split by (simp add: pos_le_divide_eq mult.commute)
  show "\<bar>x\<bar> / 2 powr of_int e < 2 ^ 53"
    using hi unfolding split1 by (simp add: pos_divide_less_eq mult.commute)
qed

lemma fl64_error: "\<bar>fl64 x - x\<bar> \<le> \<bar>x\<bar> / 2 ^ 53"
proof (cases "x = 0")
  case True
  then show ?thesis by (simp add: fl64_def)
next
  case False
  define e where "e = \<lfloor>log 2 \<bar>x\<bar>\<rfloor> - 52"
  define p where "p = 2 powr (of_int e :: real)"
  define y where "y = x / p"
  have p: "0 < p" by (simp add: p_def)
  have x: "x = y * p" using p by (simp add: y_def)
  have fl: "fl64 x = of_int (roundEven y) * p"
    using False by (simp add: fl64_def Let_def e_def p_def y_def)
  have "2 ^ 52 \<le> \<bar>x\<bar> / p" using scaled_range(1) [OF False] by (simp add: p_def e_def)
  then have big: "2 ^ 52 \<le> \<bar>y\<bar>" using p by (simp add: y_def)
  have "of_int (roundEven y) * p - y * p = (of_int (roundEven y) - y) * p"
    by (simp add: left_diff_distrib)
  then have "fl64 x - x = (of_int (roundEven y) - y) * p"
    unfolding fl using x by simp
  then have "\<bar>fl64 x - x\<bar> = \<bar>of_int (roundEven y) - y\<bar> * p"
    using p by (simp add: abs_mult)
  also have "\<dots> \<le> (1 / 2) * p"
    using roundEven_error [of y] p by (simp add: mult_right_mono)
  also have "\<dots> \<le> (\<bar>y\<bar> / 2 ^ 53) * p"
    using big p by (simp add: mult_right_mono)
  also have "\<dots> = \<bar>y * p\<bar> / 2 ^ 53"
    using p by (simp add: abs_mult)
  also have "\<dots> = \<bar>x\<bar> / 2 ^ 53"
    using x by simp
  finally show ?thesis .
qed

lemma fl64_eqI:
  fixes k :: nat
  assumes "2 ^ 52 \<le> \<bar>x\<bar> * 2 ^ k" and "\<bar>x\<bar> * 2 ^ k < 2 ^ 53"
    and "\<bar>x * 2 ^ k - of_int m\<bar> < 1 / 2"
  shows "fl64 x = of_int m / 2 ^ k"
proof -
  have nz: "x \<noteq> 0" using assms(1) by auto
  have pos: "0 < \<bar>x\<bar>" using nz by simp
  have "\<lfloor>log 2 \<bar>x\<bar>\<rfloor> = 52 - int k"
  proof (rule floor_unique)
    have "2 powr (52 - real k) \<le> \<bar>x\<bar>"
      using assms(1) by (simp add: powr_diff powr_realpow pos_divide_le_eq)
    then show "of_int (52 - int k) \<le> log 2 \<bar>x\<bar>"
      using pos by (simp add: le_log_iff)
    have "\<bar>x\<bar> < 2 powr (53 - real k)"
      using assms(2) by (simp add: powr_diff powr_realpow pos_less_divide_eq)
    then show "log 2 \<bar>x\<bar> < of_int (52 - int k) + 1"
      using pos by (simp add: log_less_iff)
  qed
  then have e: "\<lfloor>log 2 \<bar>x\<bar>\<rfloor> - 52 = - int k" by simp
  have pw: "2 powr (- real k) = 1 / (2 ^ k :: real)"
    by (simp add: powr_minus powr_realpow inverse_eq_divide)
  have "roundEven (x * 2 ^ k) = m" using assms(3) by (rule roundEven_unique)
  then show ?thesis
    using nz by (simp add: fl64_def Let_def e pw)
qed

lemma fl64_half: "fl64 (1 / 2) = 1 / 2"
  using fl64_eqI [of "1 / 2" 53 "2 ^ 52"] by simp

lemma fl64_zero: "fl64 0 = 0"
  by (simp add: fl64_def)

lemma fl64_two: "fl64 2 = 2"
  using fl64_eqI [of 2 51 "2 ^ 52"] by simp

lemma fl64_four: "fl64 4 = 4"
  using fl64_eqI [of 4 50 "2 ^ 52"] by simp

lemma fl64_upper: "0 \<le> x \<Longrightarrow> fl64 x \<le> x * (1 + 1 / 2 ^ 53)"
  using fl64_error [of x] by (simp add: abs_if algebra_simps split: if_splits)

lemma fl64_nonneg: "0 \<le> x \<Longrightarrow> 0 \<le> fl64 x"
  using fl64_error [of x] by (simp add: abs_if split: if_splits)

lemma fl64_pos: "0 < x \<Longrightarrow> 0 < fl64 x"
  using fl64_error [of x] by (simp add: abs_if split: if_splits)

lemma fl64_neg: "x < 0 \<Longrightarrow> fl64 x < 0"
  using fl64_error [of x] by (simp add: abs_if split: if_splits)

lemma fl64_nonzero: "x \<noteq> 0 \<Longrightarrow> fl64 x \<noteq> 0"
  using fl64_pos [of x] fl64_neg [of x] by (cases "0 < x") auto

text \<open>The rounded ratio keeps an output length below \<open>2^51\<close> below \<open>2^52\<close>.\<close>

lemma ratio_bound:
  assumes "real n * q < 2 ^ 51"
  shows "real n * fl64 q < 2 ^ 52"
proof (cases "0 \<le> q")
  case True
  have "real n * fl64 q \<le> real n * (q * (1 + 1 / 2 ^ 53))"
    by (rule mult_left_mono [OF fl64_upper [OF True]]) simp
  also have "\<dots> = (real n * q) * (1 + 1 / 2 ^ 53)" by simp
  also have "\<dots> < 2 ^ 51 * (1 + 1 / 2 ^ 53)"
    by (rule mult_strict_right_mono [OF assms]) simp
  also have "\<dots> < (2 ^ 52 :: real)" by simp
  finally show ?thesis .
next
  case False
  then have "fl64 q < 0" by (simp add: fl64_neg)
  then have "real n * fl64 q \<le> 0" by (simp add: mult_nonneg_nonpos)
  then show ?thesis by (simp add: order_le_less_trans)
qed

lemma resample_left_range:
  assumes "samples \<noteq> []" and "ratio \<noteq> 0"
    and "real (length samples) * ratio < 2 ^ 52"
    and "i < nat (max 1 \<lfloor>fl64 (real (length samples) * ratio)\<rfloor>)"
  shows "0 \<le> \<lfloor>fl64 (real i / ratio)\<rfloor> \<and> \<lfloor>fl64 (real i / ratio)\<rfloor> < int (length samples)"
proof (cases "i = 0")
  case True
  then show ?thesis using assms(1) by (simp add: fl64_zero)
next
  case False
  define A where "A = real (length samples) * ratio"
  have one: "1 \<le> real i" using False by simp
  have "1 < max 1 \<lfloor>fl64 A\<rfloor>" using assms(4) False unfolding A_def by linarith
  then have big: "1 < \<lfloor>fl64 A\<rfloor>" by (simp add: max_def split: if_splits)
  then have "int i < \<lfloor>fl64 A\<rfloor>" using assms(4) unfolding A_def by simp
  then have step: "real i + 1 \<le> fl64 A" by linarith
  have Apos: "0 < A"
  proof (rule ccontr)
    assume "\<not> 0 < A"
    then have "A = 0 \<or> A < 0" by linarith
    then have "fl64 A \<le> 0" using fl64_neg [of A] by (auto simp: fl64_zero)
    with big show False by linarith
  qed
  have rpos: "0 < ratio"
  proof -
    have "0 < real (length samples)" using assms(1) by simp
    with Apos show ?thesis unfolding A_def by (simp add: zero_less_mult_iff)
  qed
  have "fl64 A \<le> A * (1 + 1 / 2 ^ 53)" using Apos by (intro fl64_upper) simp
  with step have i_le: "real i \<le> A * (1 + 1 / 2 ^ 53) - 1" by linarith
  have "real i * (1 + 1 / 2 ^ 53) \<le> (A * (1 + 1 / 2 ^ 53) - 1) * (1 + 1 / 2 ^ 53)"
    using i_le by (intro mult_right_mono) simp_all
  also have "\<dots> < A"
    using assms(3) unfolding A_def [symmetric] by (simp add: algebra_simps)
  finally have lt: "real i * (1 + 1 / 2 ^ 53) < real (length samples) * ratio"
    unfolding A_def .
  have x0: "0 \<le> real i / ratio" using rpos by simp
  have "fl64 (real i / ratio) \<le> real i / ratio * (1 + 1 / 2 ^ 53)"
    using x0 by (rule fl64_upper)
  also have "\<dots> = real i * (1 + 1 / 2 ^ 53) / ratio" by simp
  also have "\<dots> < real (length samples)"
    using lt rpos by (simp add: pos_divide_less_eq)
  finally have "fl64 (real i / ratio) < real (length samples)" .
  then have "\<lfloor>fl64 (real i / ratio)\<rfloor> < int (length samples)"
    by (simp add: floor_less_iff)
  moreover have "0 \<le> \<lfloor>fl64 (real i / ratio)\<rfloor>"
    using fl64_nonneg [OF x0] by simp
  ultimately show ?thesis by simp
qed

lemma resampleAt_Some:
  assumes "samples \<noteq> []" and "ratio \<noteq> 0"
    and "real (length samples) * ratio < 2 ^ 52"
    and "i < nat (max 1 \<lfloor>fl64 (real (length samples) * ratio)\<rfloor>)"
  shows "resampleAt samples ratio i =
           Some (samples ! nat \<lfloor>fl64 (real i / ratio)\<rfloor>
                   * (1 - (fl64 (real i / ratio) - of_int \<lfloor>fl64 (real i / ratio)\<rfloor>))
                 + samples ! nat (min (int (length samples) - 1) (\<lfloor>fl64 (real i / ratio)\<rfloor> + 1))
                     * (fl64 (real i / ratio) - of_int \<lfloor>fl64 (real i / ratio)\<rfloor>))"
proof -
  have l: "0 \<le> \<lfloor>fl64 (real i / ratio)\<rfloor>" "\<lfloor>fl64 (real i / ratio)\<rfloor> < int (length samples)"
    using resample_left_range [OF assms] by simp_all
  have r: "0 \<le> min (int (length samples) - 1) (\<lfloor>fl64 (real i / ratio)\<rfloor> + 1)"
    "min (int (length samples) - 1) (\<lfloor>fl64 (real i / ratio)\<rfloor> + 1) < int (length samples)"
    using l by linarith+
  show ?thesis
    unfolding resampleAt_def Let_def elemAt_def using l r by simp
qed

lemma maybeResample_Inr:
  assumes "samples \<noteq> []" and "sampleRate \<noteq> 0" and "targetRate \<noteq> 0" and "targetRate \<noteq> sampleRate"
    and "real (length samples) * (targetRate / sampleRate) < 2 ^ 51"
  shows "maybeResample samples sampleRate targetRate =
           Inr (map (\<lambda>i. the (resampleAt samples (fl64 (targetRate / sampleRate)) i))
                  [0..<nat (max 1 \<lfloor>fl64 (real (length samples) * fl64 (targetRate / sampleRate))\<rfloor>)],
                targetRate)"
proof -
  have r: "fl64 (targetRate / sampleRate) \<noteq> 0" using assms(2,3) by (intro fl64_nonzero) simp
  have b: "real (length samples) * fl64 (targetRate / sampleRate) < 2 ^ 52"
    using assms(5) by (rule ratio_bound)
  have "None \<notin> set (map (resampleAt samples (fl64 (targetRate / sampleRate)))
                      [0..<nat (max 1 \<lfloor>fl64 (real (length samples) * fl64 (targetRate / sampleRate))\<rfloor>)])"
    using resampleAt_Some [OF assms(1) r b] by auto
  then show ?thesis
    using assms(1-4) by (simp add: maybeResample_def Let_def del: set_map)
qed

text \<open>The computed length is within one of the exact one.\<close>

lemma length_near_exact:
  assumes "real n * q < 2 ^ 51"
  shows "\<bar>max 1 \<lfloor>fl64 (real n * fl64 q)\<rfloor> - max 1 \<lfloor>real n * q\<rfloor>\<bar> \<le> 1"
proof (cases "0 < q")
  case True
  define A where "A = real n * q"
  define B where "B = real n * fl64 q"
  have A0: "0 \<le> A" using True by (simp add: A_def)
  have q: "\<bar>fl64 q - q\<bar> \<le> q / 2 ^ 53" using fl64_error [of q] True by simp
  have "\<bar>B - A\<bar> = real n * \<bar>fl64 q - q\<bar>"
    by (simp add: A_def B_def right_diff_distrib [symmetric] abs_mult)
  also have "\<dots> \<le> real n * (q / 2 ^ 53)" by (rule mult_left_mono [OF q]) simp
  finally have BA: "\<bar>B - A\<bar> \<le> A / 2 ^ 53" by (simp add: A_def)
  then have B0: "0 \<le> B" using A0 by (simp add: abs_if split: if_splits)
  have fb: "\<bar>fl64 B - B\<bar> \<le> B / 2 ^ 53" using fl64_error [of B] B0 by simp
  have b1: "B \<le> A + A / 2 ^ 53" using BA by linarith
  have b2: "B / 2 ^ 53 \<le> (A + A / 2 ^ 53) / 2 ^ 53" using b1 by (simp add: divide_right_mono)
  have A51: "A < 2 ^ 51" using assms by (simp add: A_def)
  have "\<bar>fl64 B - A\<bar> \<le> A / 2 ^ 53 + (A + A / 2 ^ 53) / 2 ^ 53"
    using BA fb b2 by linarith
  also have "\<dots> < 1" using A51 by simp
  finally have "\<bar>fl64 B - A\<bar> < 1" .
  then have "\<bar>\<lfloor>fl64 B\<rfloor> - \<lfloor>A\<rfloor>\<bar> \<le> 1" by linarith
  then show ?thesis unfolding A_def B_def by linarith
next
  case False
  then have "q = 0 \<or> q < 0" by linarith
  then have "fl64 q \<le> 0" using fl64_neg [of q] by (auto simp: fl64_zero)
  then have "real n * fl64 q \<le> 0" by (simp add: mult_nonneg_nonpos)
  then have "fl64 (real n * fl64 q) \<le> 0"
    using fl64_neg [of "real n * fl64 q"] by (cases "real n * fl64 q = 0") (auto simp: fl64_zero)
  then have a: "\<lfloor>fl64 (real n * fl64 q)\<rfloor> \<le> 0" by (simp add: floor_le_iff)
  have "real n * q \<le> 0" using False by (simp add: mult_nonneg_nonpos)
  then have b: "\<lfloor>real n * q\<rfloor> \<le> 0" by (simp add: floor_le_iff)
  from a b show ?thesis by simp
qed

text \<open>
  Claim C4, as amended. For a non-empty buffer and non-zero rates \<open>S \<noteq> R\<close> with fewer
  than \<open>2^51\<close> output samples, \<^verbatim>\<open>maybeResample\<close> returns a buffer at rate \<open>R\<close> of length
  \<open>max(1, floor(inputLength \<times> ratio))\<close>, where the ratio \<open>R / S\<close> and the product are
  rounded to double precision as lines 188-189 compute them; this length is within one
  of \<open>max(1, floor(inputLength \<times> R / S))\<close>. Output sample \<open>i\<close> is the blend of the input
  samples at \<open>floor(i / ratio)\<close>, which is inside the input, and at that index plus one
  clamped to the last index, weighted by the fractional part of \<open>i / ratio\<close>, the
  quotient in double precision. With \<open>R = S\<close> the input is returned unchanged.
\<close>

theorem C4_maybeResample_length_and_blend:
  assumes "samples \<noteq> []" and "sampleRate \<noteq> 0" and "targetRate \<noteq> 0" and "targetRate \<noteq> sampleRate"
    and "real (length samples) * (targetRate / sampleRate) < 2 ^ 51"
  shows "\<exists>out. maybeResample samples sampleRate targetRate = Inr (out, targetRate)
           \<and> int (length out) = max 1 \<lfloor>fl64 (real (length samples) * fl64 (targetRate / sampleRate))\<rfloor>
           \<and> \<bar>int (length out) - max 1 \<lfloor>real (length samples) * targetRate / sampleRate\<rfloor>\<bar> \<le> 1
           \<and> (\<forall>i < length out.
                 0 \<le> \<lfloor>fl64 (real i / fl64 (targetRate / sampleRate))\<rfloor>
                 \<and> \<lfloor>fl64 (real i / fl64 (targetRate / sampleRate))\<rfloor> < int (length samples)
                 \<and> out ! i =
                     samples ! nat \<lfloor>fl64 (real i / fl64 (targetRate / sampleRate))\<rfloor>
                       * (1 - (fl64 (real i / fl64 (targetRate / sampleRate))
                                 - of_int \<lfloor>fl64 (real i / fl64 (targetRate / sampleRate))\<rfloor>))
                     + samples ! nat (min (int (length samples) - 1)
                                          (\<lfloor>fl64 (real i / fl64 (targetRate / sampleRate))\<rfloor> + 1))
                       * (fl64 (real i / fl64 (targetRate / sampleRate))
                            - of_int \<lfloor>fl64 (real i / fl64 (targetRate / sampleRate))\<rfloor>))
           \<and> maybeResample samples sampleRate sampleRate = Inr (samples, sampleRate)"
proof -
  let ?ratio = "fl64 (targetRate / sampleRate)"
  let ?n = "nat (max 1 \<lfloor>fl64 (real (length samples) * ?ratio)\<rfloor>)"
  let ?out = "map (\<lambda>i. the (resampleAt samples ?ratio i)) [0..<?n]"
  have r: "?ratio \<noteq> 0" using assms(2,3) by (intro fl64_nonzero) simp
  have bd: "real (length samples) * ?ratio < 2 ^ 52"
    using assms(5) by (rule ratio_bound)
  have a: "maybeResample samples sampleRate targetRate = Inr (?out, targetRate)"
    using assms by (rule maybeResample_Inr)
  have b: "int (length ?out) = max 1 \<lfloor>fl64 (real (length samples) * ?ratio)\<rfloor>"
    by simp
  have b': "\<bar>int (length ?out) - max 1 \<lfloor>real (length samples) * targetRate / sampleRate\<rfloor>\<bar> \<le> 1"
    using length_near_exact [OF assms(5)] unfolding b by simp
  have c: "0 \<le> \<lfloor>fl64 (real i / ?ratio)\<rfloor>
           \<and> \<lfloor>fl64 (real i / ?ratio)\<rfloor> < int (length samples)
           \<and> ?out ! i =
                     samples ! nat \<lfloor>fl64 (real i / ?ratio)\<rfloor>
                       * (1 - (fl64 (real i / ?ratio) - of_int \<lfloor>fl64 (real i / ?ratio)\<rfloor>))
                     + samples ! nat (min (int (length samples) - 1) (\<lfloor>fl64 (real i / ?ratio)\<rfloor> + 1))
                       * (fl64 (real i / ?ratio) - of_int \<lfloor>fl64 (real i / ?ratio)\<rfloor>)"
    if "i < length ?out" for i
  proof -
    have i: "i < ?n" using that by simp
    show ?thesis
      using resample_left_range [OF assms(1) r bd i] resampleAt_Some [OF assms(1) r bd i] i
      by simp
  qed
  have d: "maybeResample samples sampleRate sampleRate = Inr (samples, sampleRate)"
    by (simp add: maybeResample_def)
  from a b b' c d show ?thesis by blast
qed

theorem C4_maybeResample_length_and_blend_witness:
  "[0, 1] \<noteq> ([] :: real list) \<and> (11025 :: real) \<noteq> 0 \<and> (22050 :: real) \<noteq> 0 \<and> (22050 :: real) \<noteq> 11025
   \<and> real (length [0, 1 :: real]) * (22050 / 11025) < 2 ^ 51
   \<and> (\<exists>out. maybeResample [0, 1] 11025 22050 = Inr (out, 22050) \<and> length out = 4
          \<and> out ! 1 = 1 / 2)
   \<and> maybeResample [0, 1] 11025 11025 = Inr ([0, 1], 11025)"
proof -
  have h: "real (length [0, 1 :: real]) * (22050 / 11025) < 2 ^ 51" by simp
  obtain out where o: "maybeResample [0, 1] 11025 22050 = Inr (out, 22050)"
    and len: "int (length out) = max 1 \<lfloor>fl64 (real (length [0, 1 :: real]) * fl64 (22050 / 11025))\<rfloor>"
    and val: "\<forall>i < length out. out ! i =
                     [0, 1] ! nat \<lfloor>fl64 (real i / fl64 (22050 / 11025))\<rfloor>
                       * (1 - (fl64 (real i / fl64 (22050 / 11025))
                                 - of_int \<lfloor>fl64 (real i / fl64 (22050 / 11025))\<rfloor>))
                     + [0, 1] ! nat (min (int (length [0, 1 :: real]) - 1)
                                          (\<lfloor>fl64 (real i / fl64 (22050 / 11025))\<rfloor> + 1))
                       * (fl64 (real i / fl64 (22050 / 11025))
                            - of_int \<lfloor>fl64 (real i / fl64 (22050 / 11025))\<rfloor>)"
    and same: "maybeResample [0, 1] 11025 11025 = Inr ([0, 1], 11025)"
    using C4_maybeResample_length_and_blend [of "[0, 1]" 11025 22050, OF _ _ _ _ h] by auto
  have l4: "length out = 4" using len by (simp add: fl64_two fl64_four)
  then have "out ! 1 = 1 / 2"
    using val [rule_format, of 1] by (simp add: fl64_two fl64_half)
  with o l4 same show ?thesis by simp
qed

text \<open>
  Claim C4 as stated fails on the length: one sample at 44100 Hz resampled to 22050 Hz
  has \<open>floor(1 \<times> 22050 / 44100) = 0\<close>, and line 189 raises the length to 1.
\<close>

theorem C4_length_counterexample:
  "maybeResample [1] 44100 22050 = Inr ([1], 22050)
   \<and> int (length [1 :: real]) \<noteq> \<lfloor>real (length [1 :: real]) * 22050 / 44100\<rfloor>"
  by (simp add: maybeResample_def resampleAt_def elemAt_def Let_def fl64_half fl64_zero)

text \<open>The rounding is visible on ordinary inputs: 220 samples at 11000 Hz resampled to
  22050 Hz give 440 samples, one fewer than \<open>floor(220 \<times> 22050 / 11000) = 441\<close>, because
  the double nearest to 22050 / 11000 lies below it and 220 times that double rounds to
  a double below 441.\<close>

lemma ratio_11000: "fl64 (22050 / 11000) = 4513835081069065 / 2 ^ 51"
  using fl64_eqI [of "22050 / 11000" 51 4513835081069065] by simp

lemma product_220: "fl64 (220 * (4513835081069065 / 2 ^ 51)) = 7758154045587455 / 2 ^ 44"
  using fl64_eqI [of "220 * (4513835081069065 / 2 ^ 51)" 44 7758154045587455] by simp

lemma resample_220_length:
  "\<exists>out. maybeResample (replicate 220 c) 11000 22050 = Inr (out, 22050) \<and> length out = 440"
proof -
  have len: "real (length (replicate 220 c)) = 220" by simp
  have "fl64 (real (length (replicate 220 c)) * fl64 (22050 / 11000)) = 7758154045587455 / 2 ^ 44"
    by (simp only: len ratio_11000 product_220)
  moreover have "\<lfloor>7758154045587455 / 2 ^ 44 :: real\<rfloor> = 440" by simp
  ultimately have "\<lfloor>fl64 (real (length (replicate 220 c)) * fl64 (22050 / 11000))\<rfloor> = 440"
    by (simp only:)
  moreover have "maybeResample (replicate 220 c) 11000 22050 =
           Inr (map (\<lambda>i. the (resampleAt (replicate 220 c) (fl64 (22050 / 11000)) i))
                  [0..<nat (max 1 \<lfloor>fl64 (real (length (replicate 220 c)) * fl64 (22050 / 11000))\<rfloor>)],
                22050)"
    by (rule maybeResample_Inr) simp_all
  ultimately show ?thesis by (simp del: length_replicate)
qed

lemma resample_220_exact: "\<lfloor>(220 :: real) * 22050 / 11000\<rfloor> = 441"
  by simp



lemma bytes_tags:
  "bytes_of ''RIFF'' = [0x52, 0x49, 0x46, 0x46]"
  "bytes_of ''WAVE'' = [0x57, 0x41, 0x56, 0x45]"
  "bytes_of ''fmt '' = [0x66, 0x6D, 0x74, 0x20]"
  "bytes_of ''data'' = [0x64, 0x61, 0x74, 0x61]"
  "bytes_of ''LIST'' = [0x4C, 0x49, 0x53, 0x54]"
  by (simp_all add: bytes_of_def)

lemmas wav_eval =
  wav_header_def fmt_chunk_def bytes_tags decodeWav_def decodeFrom_def
  chunkIdAt_def chunkSizeAt_def nextChunk_def le_value_def readFmt_def getUint_def getInt_def
  default_fmt_def decodeData_def decodeFrames_def decodeSample_def mergeChannels_def

text \<open>
  Claim C3 says that a bit depth other than 8, 16, 24 or 32 makes \<^verbatim>\<open>decodeWav\<close> fail
  with "Unsupported WAV bits per sample" for every payload size, an empty data chunk
  included. The test sits inside the sample loop, so a file that declares 12 bits per
  sample and has an empty data chunk is decoded without an error, to zero samples.
\<close>

theorem C3_empty_data_not_rejected:
  "decodeWav wav12_empty = Inr ([], 22050)"
  by (simp add: wav12_empty_def wav_eval chunkWalk.simps [of _ 12] chunkWalk.simps [of _ 36])

theorem C3_empty_data_not_rejected_witness:
  "chunkWalk wav12_empty 12 default_fmt
     = Inr (\<lparr>audioFormat = 1, numChannels = 1, sampleRate_fmt = 22050, bitsPerSample = 12\<rparr>, Some (44, 0))
   \<and> length wav12_empty = 44
   \<and> decodeWav wav12_empty \<noteq> Inl (UnsupportedBitsPerSample 12)"
proof -
  have "chunkWalk wav12_empty 12 default_fmt
     = Inr (\<lparr>audioFormat = 1, numChannels = 1, sampleRate_fmt = 22050, bitsPerSample = 12\<rparr>, Some (44, 0))"
    by (simp add: wav12_empty_def wav_eval chunkWalk.simps [of _ 12] chunkWalk.simps [of _ 36])
  moreover have "length wav12_empty = 44"
    by (simp add: wav12_empty_def wav_header_def fmt_chunk_def bytes_of_def)
  moreover have "decodeWav wav12_empty \<noteq> Inl (UnsupportedBitsPerSample 12)"
    using C3_empty_data_not_rejected by simp
  ultimately show ?thesis by simp
qed

lemma getUint_shift: "getUint n (p @ rest) (length p + x) = getUint n rest x"
  by (simp add: getUint_def)

lemma getInt_shift: "getInt n (p @ rest) (length p + x) = getInt n rest x"
  by (simp add: getInt_def getUint_shift)

lemma getFloat32_shift: "getFloat32 (p @ rest) (length p + x) = getFloat32 rest x"
  by (simp add: getFloat32_def getUint_shift)

lemma readFmt_shift: "readFmt (p @ rest) (length p + k) = readFmt rest k"
  unfolding readFmt_def add.assoc getUint_shift by (rule refl)

lemma chunkIdAt_shift: "chunkIdAt (p @ rest) (length p + k) = chunkIdAt rest k"
  by (simp add: chunkIdAt_def)

lemma chunkSizeAt_shift: "chunkSizeAt (p @ rest) (length p + k) = chunkSizeAt rest k"
  by (simp add: chunkSizeAt_def add.assoc)

lemma nextChunk_shift: "nextChunk (p @ rest) (length p + k) = length p + nextChunk rest k"
  by (simp add: nextChunk_def chunkSizeAt_shift)

lemma chunkWalk_shift:
  "chunkWalk (p @ rest) (length p + k) fmt = shiftData (length p) (chunkWalk rest k fmt)"
proof (induction rest k fmt rule: chunkWalk.induct)
  case (1 buf offset fmt)
  show ?case
  proof (cases "offset + 8 \<le> length buf")
    case False
    then show ?thesis
      by (simp add: chunkWalk.simps [of buf offset] chunkWalk.simps [of "p @ buf"] shiftData_def)
  next
    case inside: True
    show ?thesis
    proof (cases "chunkIdAt buf offset = bytes_of ''fmt ''")
      case isfmt: True
      show ?thesis
      proof (cases "readFmt buf offset")
        case (Inl e)
        then show ?thesis
          using inside isfmt
          by (simp add: chunkWalk.simps [of buf offset] chunkWalk.simps [of "p @ buf"]
              chunkIdAt_shift readFmt_shift shiftData_def)
      next
        case (Inr fmt')
        then show ?thesis
          using inside isfmt "1.IH"(1) [OF inside isfmt Inr]
          by (simp add: chunkWalk.simps [of buf offset] chunkWalk.simps [of "p @ buf" "length p + offset"]
              chunkIdAt_shift readFmt_shift nextChunk_shift)
      qed
    next
      case notfmt: False
      show ?thesis
      proof (cases "chunkIdAt buf offset = bytes_of ''data''")
        case True
        then show ?thesis
          using inside notfmt
          by (simp add: chunkWalk.simps [of buf offset] chunkWalk.simps [of "p @ buf"]
              chunkIdAt_shift chunkSizeAt_shift shiftData_def)
      next
        case False
        then show ?thesis
          using inside notfmt "1.IH"(2) [OF inside notfmt False]
          by (simp add: chunkWalk.simps [of buf offset] chunkWalk.simps [of "p @ buf" "length p + offset"]
              chunkIdAt_shift nextChunk_shift)
      qed
    qed
  qed
qed

lemma sampleIndex_shift:
  "0 \<le> y \<Longrightarrow> nat \<lfloor>real (length p + off) + y\<rfloor> = length p + nat \<lfloor>real off + y\<rfloor>"
proof -
  assume y: "0 \<le> y"
  have "\<lfloor>real (length p + off) + y\<rfloor> = int (length p) + \<lfloor>real off + y\<rfloor>"
    by (simp add: add.assoc)
  moreover have "0 \<le> \<lfloor>real off + y\<rfloor>" using y by simp
  ultimately show ?thesis by (simp add: nat_add_distrib)
qed

lemma decodeSample_shift:
  "0 \<le> y \<Longrightarrow>
     decodeSample (p @ rest) fmt (real (length p + off) + y) = decodeSample rest fmt (real off + y)"
  unfolding decodeSample_def sampleIndex_shift
  by (simp only: getUint_shift getInt_shift getFloat32_shift add.assoc)

lemma decodeFrames_shift:
  "decodeFrames (p @ rest) fmt (length p + off) n = decodeFrames rest fmt off n"
proof -
  have "decodeSample (p @ rest) fmt
          (real (length p + off) + real (i * numChannels fmt + channel) * (real (bitsPerSample fmt) / 8))
        = decodeSample rest fmt
          (real off + real (i * numChannels fmt + channel) * (real (bitsPerSample fmt) / 8))"
    for i channel
    by (rule decodeSample_shift) simp
  then show ?thesis
    unfolding decodeFrames_def by (simp only:)
qed

lemma decodeData_shift:
  "decodeData (p @ rest) fmt (length p + off) dsz = decodeData rest fmt off dsz"
  unfolding decodeData_def decodeFrames_shift by simp

lemma decodeFrom_shift:
  "decodeFrom (p @ rest) (length p + k) fmt = decodeFrom rest k fmt"
  unfolding decodeFrom_def chunkWalk_shift
  by (cases "chunkWalk rest k fmt") (auto simp: shiftData_def decodeData_shift split: option.splits)

lemma chunkWalk_skip:
  assumes "offset + 8 \<le> length buf"
    and "chunkIdAt buf offset \<noteq> bytes_of ''fmt ''" and "chunkIdAt buf offset \<noteq> bytes_of ''data''"
  shows "chunkWalk buf offset fmt =
           chunkWalk buf (offset + 8 + chunkSizeAt buf offset + chunkSizeAt buf offset mod 2) fmt"
  using assms by (simp add: chunkWalk.simps [of buf offset] nextChunk_def add.assoc)

lemma decodeFrom_unknown_chunk:
  assumes "length cid = 4" and "cid \<noteq> bytes_of ''fmt ''" and "cid \<noteq> bytes_of ''data''"
    and "length sz = 4" and "length body = le_value sz + le_value sz mod 2"
  shows "decodeFrom (pre @ cid @ sz @ body @ rest) (length pre) fmt = decodeFrom (pre @ rest) (length pre) fmt"
proof -
  let ?buf = "pre @ cid @ sz @ body @ rest"
  have inside: "length pre + 8 \<le> length ?buf" using assms(1,4) by simp
  have cid: "chunkIdAt ?buf (length pre) = cid" using assms(1) by (simp add: chunkIdAt_def)
  have size: "chunkSizeAt ?buf (length pre) = le_value sz"
    using assms(1,4) by (simp add: chunkSizeAt_def)
  have "chunkWalk ?buf (length pre) fmt
          = chunkWalk ?buf (length pre + 8 + le_value sz + le_value sz mod 2) fmt"
    using chunkWalk_skip [OF inside, of fmt] assms(2,3) unfolding cid size by simp
  also have "length pre + 8 + le_value sz + le_value sz mod 2 = length (pre @ cid @ sz @ body) + 0"
    using assms(1,4,5) by simp
  finally have "decodeFrom ?buf (length pre) fmt
          = decodeFrom ((pre @ cid @ sz @ body) @ rest) (length (pre @ cid @ sz @ body) + 0) fmt"
    by (simp add: decodeFrom_def)
  also have "\<dots> = decodeFrom rest 0 fmt" by (rule decodeFrom_shift)
  also have "\<dots> = decodeFrom (pre @ rest) (length pre + 0) fmt" by (rule decodeFrom_shift [symmetric])
  finally show ?thesis by simp
qed


text \<open>Where the loop runs at least once with at least one channel, the unsupported
  depth is rejected at the first sample.\<close>

lemma collect_first_error: "collect (Inl e # xs) = Inl e"
  by simp

lemma decodeData_unsupported:
  assumes "bitsPerSample fmt \<notin> {0, 8, 16, 24, 32}" and "0 < numChannels fmt"
    and "1 \<le> \<lfloor>real_of_int (max 0 (min (int dataSize) (int (length buf) - int dataOffset)))
                 / (real (bitsPerSample fmt) / 8) / real (numChannels fmt)\<rfloor>"
  shows "decodeData buf fmt dataOffset dataSize = Inl (UnsupportedBitsPerSample (bitsPerSample fmt))"
proof -
  define total where "total = nat \<lfloor>real_of_int (max 0 (min (int dataSize) (int (length buf) - int dataOffset)))
                 / (real (bitsPerSample fmt) / 8) / real (numChannels fmt)\<rfloor>"
  have t: "[0..<total] = 0 # [Suc 0..<total]"
    using assms(3) unfolding total_def by (intro upt_conv_Cons) simp
  have c: "[0..<numChannels fmt] = 0 # [Suc 0..<numChannels fmt]"
    using assms(2) by (intro upt_conv_Cons)
  have s: "decodeSample buf fmt x = Inl (UnsupportedBitsPerSample (bitsPerSample fmt))" for x
    using assms(1) by (simp add: decodeSample_def)
  have "decodeFrames buf fmt dataOffset total = Inl (UnsupportedBitsPerSample (bitsPerSample fmt))"
    unfolding decodeFrames_def t c by (simp add: s)
  then show ?thesis
    using assms(1,2) unfolding decodeData_def Let_def total_def [symmetric] by simp
qed

lemma decodeWav_unsupported:
  assumes "12 \<le> length buf"
    and "take 4 buf = bytes_of ''RIFF''" and "take 4 (drop 8 buf) = bytes_of ''WAVE''"
    and "chunkWalk buf 12 default_fmt = Inr (fmt, Some (dataOffset, dataSize))"
    and "bitsPerSample fmt \<notin> {0, 8, 16, 24, 32}" and "0 < numChannels fmt"
    and "1 \<le> \<lfloor>real_of_int (max 0 (min (int dataSize) (int (length buf) - int dataOffset)))
                 / (real (bitsPerSample fmt) / 8) / real (numChannels fmt)\<rfloor>"
  shows "decodeWav buf = Inl (UnsupportedBitsPerSample (bitsPerSample fmt))"
  using assms(1-4) decodeData_unsupported [OF assms(5-7)]
  by (simp add: decodeWav_def decodeFrom_def)

lemma wav12_one_sample_rejected:
  "decodeWav wav12_one_sample = Inl (UnsupportedBitsPerSample 12)"
  by (simp add: wav12_one_sample_def wav_eval chunkWalk.simps [of _ 12] chunkWalk.simps [of _ 36])

lemma wav12_no_channels_hangs:
  "decodeWav wav12_no_channels = Inl NeverReturns"
  by (simp add: wav12_no_channels_def wav_eval chunkWalk.simps [of _ 12] chunkWalk.simps [of _ 36])

text \<open>No step after the header test ends in "Invalid WAV header".\<close>

lemma getUint_error: "getUint n buf i = Inl e \<Longrightarrow> e = RangeError"
  by (simp add: getUint_def split: if_splits)

lemma getInt_error: "getInt n buf i = Inl e \<Longrightarrow> e = RangeError"
  by (auto simp: getInt_def dest: getUint_error split: sum.splits)

lemma getFloat32_error: "getFloat32 buf i = Inl e \<Longrightarrow> e = RangeError"
  by (auto simp: getFloat32_def dest: getUint_error split: sum.splits)

lemma readFmt_error: "readFmt buf i = Inl e \<Longrightarrow> e = RangeError"
  by (auto simp: readFmt_def dest: getUint_error split: sum.splits)

lemma chunkWalk_error: "chunkWalk buf offset fmt = Inl e \<Longrightarrow> e = RangeError"
proof (induction buf offset fmt rule: chunkWalk.induct)
  case (1 buf offset fmt)
  from "1.prems" show ?case
    by (subst (asm) chunkWalk.simps)
      (auto split: if_splits sum.splits dest: readFmt_error "1.IH"(1) "1.IH"(2))
qed

lemma decodeSample_error:
  "decodeSample buf fmt x = Inl e \<Longrightarrow> e \<noteq> InvalidWavHeader"
  by (auto simp: decodeSample_def Let_def split: if_splits sum.splits
      dest: getUint_error getInt_error getFloat32_error)

lemma collect_error: "collect xs = Inl e \<Longrightarrow> Inl e \<in> set xs"
  by (induction xs) (auto split: sum.splits)

lemma decodeFrames_error:
  assumes "decodeFrames buf fmt off n = Inl e"
  shows "e \<noteq> InvalidWavHeader"
proof -
  from assms obtain x where "decodeSample buf fmt x = Inl e"
    unfolding decodeFrames_def by (auto dest!: collect_error simp: eq_commute [of "Inl e"])
  then show ?thesis by (rule decodeSample_error)
qed

lemma decodeData_error: "decodeData buf fmt off dsz = Inl e \<Longrightarrow> e \<noteq> InvalidWavHeader"
  by (auto simp: decodeData_def Let_def split: if_splits sum.splits dest: decodeFrames_error)

lemma decodeFrom_error: "decodeFrom buf offset fmt = Inl e \<Longrightarrow> e \<noteq> InvalidWavHeader"
  by (auto simp: decodeFrom_def split: sum.splits option.splits prod.splits
      dest: chunkWalk_error decodeData_error)

text \<open>What the header test and the chunk walk do guarantee. On a buffer of at least 12
  bytes \<^verbatim>\<open>decodeWav\<close> fails with "Invalid WAV header" exactly when bytes 0-3 are not
  \<^verbatim>\<open>RIFF\<close> or bytes 8-11 are not \<^verbatim>\<open>WAVE\<close>; with both tags right it fails with "WAV data
  chunk not found" when the chunk walk ends without a data chunk; a chunk that is
  neither the format nor the data chunk is skipped by advancing
  \<open>8 + length + (length mod 2)\<close> bytes with the format unchanged; and such a chunk, of
  even or odd length, placed where the walk stands with the format already read (in
  particular directly after the header) leaves the result of the decoder unchanged.\<close>

theorem decodeWav_header_and_chunks:
  "(12 \<le> length buf \<and> (take 4 buf \<noteq> bytes_of ''RIFF'' \<or> take 4 (drop 8 buf) \<noteq> bytes_of ''WAVE'')
      \<longrightarrow> decodeWav buf = Inl InvalidWavHeader)
   \<and> (decodeWav buf = Inl InvalidWavHeader
      \<longrightarrow> take 4 buf \<noteq> bytes_of ''RIFF'' \<or> take 4 (drop 8 buf) \<noteq> bytes_of ''WAVE'')
   \<and> (12 \<le> length buf \<and> take 4 buf = bytes_of ''RIFF'' \<and> take 4 (drop 8 buf) = bytes_of ''WAVE''
        \<and> chunkWalk buf 12 default_fmt = Inr (fmt', None)
      \<longrightarrow> decodeWav buf = Inl DataChunkNotFound)
   \<and> (offset + 8 \<le> length buf
        \<and> chunkIdAt buf offset \<noteq> bytes_of ''fmt '' \<and> chunkIdAt buf offset \<noteq> bytes_of ''data''
      \<longrightarrow> chunkWalk buf offset fmt =
            chunkWalk buf (offset + 8 + chunkSizeAt buf offset + chunkSizeAt buf offset mod 2) fmt)
   \<and> (length cid = 4 \<and> cid \<noteq> bytes_of ''fmt '' \<and> cid \<noteq> bytes_of ''data''
        \<and> length sz = 4 \<and> length body = le_value sz + le_value sz mod 2
      \<longrightarrow> decodeFrom (pre @ cid @ sz @ body @ rest) (length pre) fmt
             = decodeFrom (pre @ rest) (length pre) fmt
          \<and> (length pre = 12 \<longrightarrow> decodeWav (pre @ cid @ sz @ body @ rest) = decodeWav (pre @ rest)))"
proof (intro conjI impI)
  assume "12 \<le> length buf \<and> (take 4 buf \<noteq> bytes_of ''RIFF'' \<or> take 4 (drop 8 buf) \<noteq> bytes_of ''WAVE'')"
  then show "decodeWav buf = Inl InvalidWavHeader"
    by (auto simp: decodeWav_def)
next
  assume "decodeWav buf = Inl InvalidWavHeader"
  then show "take 4 buf \<noteq> bytes_of ''RIFF'' \<or> take 4 (drop 8 buf) \<noteq> bytes_of ''WAVE''"
    using decodeFrom_error [of buf 12 default_fmt InvalidWavHeader]
    by (auto simp: decodeWav_def split: if_splits)
next
  assume "12 \<le> length buf \<and> take 4 buf = bytes_of ''RIFF'' \<and> take 4 (drop 8 buf) = bytes_of ''WAVE''
        \<and> chunkWalk buf 12 default_fmt = Inr (fmt', None)"
  then show "decodeWav buf = Inl DataChunkNotFound"
    by (simp add: decodeWav_def decodeFrom_def)
next
  assume "offset + 8 \<le> length buf
        \<and> chunkIdAt buf offset \<noteq> bytes_of ''fmt '' \<and> chunkIdAt buf offset \<noteq> bytes_of ''data''"
  then show "chunkWalk buf offset fmt =
            chunkWalk buf (offset + 8 + chunkSizeAt buf offset + chunkSizeAt buf offset mod 2) fmt"
    by (intro chunkWalk_skip) simp_all
next
  assume a: "length cid = 4 \<and> cid \<noteq> bytes_of ''fmt '' \<and> cid \<noteq> bytes_of ''data''
        \<and> length sz = 4 \<and> length body = le_value sz + le_value sz mod 2"
  then show "decodeFrom (pre @ cid @ sz @ body @ rest) (length pre) fmt
             = decodeFrom (pre @ rest) (length pre) fmt"
    by (intro decodeFrom_unknown_chunk) simp_all
next
  assume a: "length cid = 4 \<and> cid \<noteq> bytes_of ''fmt '' \<and> cid \<noteq> bytes_of ''data''
        \<and> length sz = 4 \<and> length body = le_value sz + le_value sz mod 2"
  assume p: "length pre = 12"
  have "decodeFrom (pre @ cid @ sz @ body @ rest) 12 default_fmt
             = decodeFrom (pre @ rest) 12 default_fmt"
    using a decodeFrom_unknown_chunk [of cid sz body pre rest default_fmt] unfolding p by simp
  then show "decodeWav (pre @ cid @ sz @ body @ rest) = decodeWav (pre @ rest)"
    using p by (simp add: decodeWav_def)
qed

lemma upt_two: "[0..<2] = [0, Suc 0]"
  by (simp add: upt_conv_Cons numeral_2_eq_2)

lemma wav16_plain: "decodeWav (wav_header @ wav16_tail) = Inr ([Some (1 / 2), Some (- (1 / 2))], 22050)"
  by (simp add: wav16_tail_def wav_eval chunkWalk.simps [of _ 12] chunkWalk.simps [of _ 36] upt_two)



theorem decodeWav_header_and_chunks_example:
  "decodeWav (bytes_of ''RIFX'' @ [36, 0, 0, 0] @ bytes_of ''WAVE'') = Inl InvalidWavHeader
   \<and> chunkWalk wav_header 12 default_fmt = Inr (default_fmt, None)
   \<and> decodeWav wav_header = Inl DataChunkNotFound
   \<and> chunkIdAt (wav_header @ odd_chunk @ wav16_tail) 12 = bytes_of ''LIST''
   \<and> chunkSizeAt (wav_header @ odd_chunk @ wav16_tail) 12 = 3
   \<and> chunkWalk (wav_header @ odd_chunk @ wav16_tail) 12 default_fmt
       = chunkWalk (wav_header @ odd_chunk @ wav16_tail) 24 default_fmt
   \<and> decodeWav (wav_header @ odd_chunk @ wav16_tail) = Inr ([Some (1 / 2), Some (- (1 / 2))], 22050)"
proof -
  let ?bad = "bytes_of ''RIFX'' @ [36, 0, 0, 0] @ bytes_of ''WAVE''"
  let ?odd = "wav_header @ odd_chunk @ wav16_tail"
  have one: "decodeWav ?bad = Inl InvalidWavHeader"
    using decodeWav_header_and_chunks [of ?bad]
    by (simp add: bytes_of_def)
  have walk: "chunkWalk wav_header 12 default_fmt = Inr (default_fmt, None)"
    by (simp add: chunkWalk.simps [of _ 12] wav_header_def bytes_of_def)
  have two: "decodeWav wav_header = Inl DataChunkNotFound"
    using decodeWav_header_and_chunks [of wav_header default_fmt] walk
    by (simp add: wav_header_def bytes_of_def)
  have cid: "chunkIdAt ?odd 12 = bytes_of ''LIST''"
    by (simp add: chunkIdAt_def wav_header_def odd_chunk_def bytes_of_def)
  have csz: "chunkSizeAt ?odd 12 = 3"
    by (simp add: chunkSizeAt_def wav_header_def odd_chunk_def bytes_of_def le_value_def)
  have three: "chunkWalk ?odd 12 default_fmt = chunkWalk ?odd 24 default_fmt"
    using decodeWav_header_and_chunks [of ?odd _ 12 default_fmt] cid csz
    by (simp add: wav_header_def odd_chunk_def bytes_of_def)
  have "decodeWav (wav_header @ bytes_of ''LIST'' @ [3, 0, 0, 0] @ [7, 8, 9, 0] @ wav16_tail)
          = decodeWav (wav_header @ wav16_tail)"
    using decodeWav_header_and_chunks [of _ _ _ _ "bytes_of ''LIST''" "[3, 0, 0, 0]" "[7, 8, 9, 0]" wav_header wav16_tail]
    by (simp add: wav_header_def bytes_of_def le_value_def)
  then have four: "decodeWav ?odd = Inr ([Some (1 / 2), Some (- (1 / 2))], 22050)"
    by (simp add: odd_chunk_def wav16_plain)
  from one walk two cid csz three four show ?thesis by blast
qed

text \<open>
  Claim C6 says that \<^verbatim>\<open>decodeWav\<close> fails with "Invalid WAV header" unless the two tags
  are in place, and that an unknown chunk never changes the decoded samples. Two inputs
  on which the code does otherwise. The eight bytes \<^verbatim>\<open>notawave\<close> do not start with
  \<^verbatim>\<open>RIFF\<close>, but lines 105-106 read byte 8 before line 107 compares the tags, and that
  read throws a \<^verbatim>\<open>RangeError\<close>. And line 132 reads \<open>bitsPerSample\<close> at offset + 22 whatever
  the length of the format chunk: behind a format chunk of 14 bytes the read falls on
  the first two bytes of the next chunk, so the unknown chunk with the id bytes
  \<^verbatim>\<open>10 00 78 79\<close> makes the file decode as 16-bit samples, to 0.5 and -0.5, and the same
  file without that chunk decodes to no sample at all.
\<close>

theorem C6_header_and_unknown_chunk_failures:
  "take 4 (bytes_of ''notawave'') \<noteq> bytes_of ''RIFF''
   \<and> decodeWav (bytes_of ''notawave'') = Inl RangeError
   \<and> decodeWav (wav_header @ fmt14_chunk @ unknown16_chunk @ data16_chunk)
       = Inr ([Some (1 / 2), Some (- (1 / 2))], 22050)
   \<and> decodeWav (wav_header @ fmt14_chunk @ data16_chunk) = Inr ([], 22050)"
proof -
  have a: "take 4 (bytes_of ''notawave'') \<noteq> bytes_of ''RIFF''"
    by (simp add: bytes_of_def)
  have b: "decodeWav (bytes_of ''notawave'') = Inl RangeError"
    by (simp add: decodeWav_def bytes_of_def)
  have c: "decodeWav (wav_header @ fmt14_chunk @ unknown16_chunk @ data16_chunk)
       = Inr ([Some (1 / 2), Some (- (1 / 2))], 22050)"
    by (simp add: fmt14_chunk_def unknown16_chunk_def data16_chunk_def wav_eval upt_two
        chunkWalk.simps [of _ 12] chunkWalk.simps [of _ 34] chunkWalk.simps [of _ 42])
  have d: "decodeWav (wav_header @ fmt14_chunk @ data16_chunk) = Inr ([], 22050)"
    by (simp add: fmt14_chunk_def data16_chunk_def wav_eval
        chunkWalk.simps [of _ 12] chunkWalk.simps [of _ 34])
  from a b c d show ?thesis by simp
qed

theorem C6_header_and_unknown_chunk_failures_witness:
  "length (bytes_of ''notawave'') = 8
   \<and> decodeWav (bytes_of ''notawave'') \<noteq> Inl InvalidWavHeader
   \<and> chunkIdAt (wav_header @ fmt14_chunk @ unknown16_chunk @ data16_chunk) 34 = [0x10, 0, 0x78, 0x79]
   \<and> decodeWav (wav_header @ fmt14_chunk @ unknown16_chunk @ data16_chunk)
       \<noteq> decodeWav (wav_header @ fmt14_chunk @ data16_chunk)"
proof -
  have "length (bytes_of ''notawave'') = 8" by (simp add: bytes_of_def)
  moreover have "chunkIdAt (wav_header @ fmt14_chunk @ unknown16_chunk @ data16_chunk) 34 = [0x10, 0, 0x78, 0x79]"
    by (simp add: chunkIdAt_def wav_header_def fmt14_chunk_def unknown16_chunk_def bytes_of_def)
  moreover have "decodeWav (bytes_of ''notawave'') \<noteq> Inl InvalidWavHeader"
    using C6_header_and_unknown_chunk_failures by simp
  moreover have "decodeWav (wav_header @ fmt14_chunk @ unknown16_chunk @ data16_chunk)
       \<noteq> decodeWav (wav_header @ fmt14_chunk @ data16_chunk)"
    using C6_header_and_unknown_chunk_failures by simp
  ultimately show ?thesis by simp
qed

text \<open>A format chunk cut off by the end of the buffer ends the decoder with the
  \<^verbatim>\<open>RangeError\<close> of its reads, before any data chunk is looked for.\<close>

lemma truncated_fmt_RangeError:
  "decodeWav (wav_header @ bytes_of ''fmt '' @ [16, 0, 0, 0]) = Inl RangeError"
  by (simp add: wav_header_def bytes_tags decodeWav_def decodeFrom_def chunkWalk.simps [of _ 12]
      chunkIdAt_def readFmt_def getUint_def)

end
